theory Spec2Isabelle
  imports Main "HOL-Library.Word"
begin

section \<open>Integers, addresses, revert reasons\<close>

text \<open>
  The two contracts are written in Solidity 0.8 with SafeMath. A \<open>uint256\<close> is modelled as a
  natural number; every addition, subtraction and increment of the source is checked, and the
  check is written out: an operation whose result leaves \<open>0 .. 2^256 - 1\<close> reverts.
  An address is a number, \<open>address(0)\<close> is \<open>0\<close>.
\<close>

type_synonym uint256 = nat
type_synonym address = nat

definition MAX_UINT256 :: nat where
  "MAX_UINT256 = 2 ^ 256 - 1"

text \<open>One constructor for each revert reason of the two contracts and of the library
  modifiers they inherit.\<close>

datatype error =
    OnlyGovernment
  | OnlyAuditor
  | OnlyOracle
  | ProjectDoesNotExist
  | MilestoneDoesNotExist
  | AmountMustBePositive
  | InvalidProducerAddress
  | ProjectNameEmpty
  | SubsidyAmountZero
  | InsufficientSubsidyPool
  | DescriptionEmpty
  | TargetValueZero
  | DeadlineNotInFuture
  | ProjectNotActive
  | ExceedsProjectSubsidyLimit
  | UnauthorizedVerifier
  | MilestoneAlreadyProcessed
  | MilestoneDeadlinePassed
  | MilestoneNotVerified
  | AlreadyPaid
  | InsufficientContractBalance
  | UnauthorizedToDispute
  | CannotDisputePending
  | MilestoneNotDisputed
  | InsufficientBalance
  | InvalidRecipient
  | ArithmeticOverflow
  | MissingRole
  | RenounceNotSelf
  | PausablePaused
  | PausableNotPaused
  | TransferFailed
  | NotPayable
  | SourceNotTrusted
  | DataPointDoesNotExist
  | ThresholdExceeds100
  | ScoreExceeds100
  | IndexOutOfBounds

definition safeAdd :: "uint256 \<Rightarrow> uint256 \<Rightarrow> error + uint256" where
  "safeAdd a b = (if a + b \<le> MAX_UINT256 then Inr (a + b) else Inl ArithmeticOverflow)"

definition safeSub :: "uint256 \<Rightarrow> uint256 \<Rightarrow> error + uint256" where
  "safeSub a b = (if b \<le> a then Inr (a - b) else Inl ArithmeticOverflow)"

section \<open>GreenHydrogenSubsidy: data\<close>

datatype role =
  DEFAULT_ADMIN_ROLE | GOVERNMENT_ROLE | AUDITOR_ROLE | ORACLE_ROLE | PRODUCER_ROLE

datatype ProjectStatus = P_Pending | P_Active | P_Completed | P_Suspended | P_Cancelled

datatype MilestoneStatus = M_Pending | M_Verified | M_Failed | M_Disputed

record Project =
  p_id :: uint256
  producer :: address
  p_name :: string
  p_description :: string
  totalSubsidyAmount :: uint256
  disbursedAmount :: uint256
  createdAt :: uint256
  p_status :: ProjectStatus
  milestoneIds :: "uint256 list"
  p_milestoneExists :: "uint256 \<Rightarrow> bool"

record Milestone =
  m_id :: uint256
  projectId :: uint256
  m_description :: string
  subsidyAmount :: uint256
  targetValue :: uint256
  actualValue :: uint256
  verificationSource :: string
  deadline :: uint256
  m_status :: MilestoneStatus
  verifiedAt :: uint256
  verifiedBy :: address
  paid :: bool

datatype event =
    ProjectRegistered uint256 address string uint256
  | MilestoneAdded uint256 uint256 string uint256
  | MilestoneVerified uint256 uint256 address
  | SubsidyDisbursed uint256 uint256 address uint256
  | ProjectStatusChanged uint256 ProjectStatus ProjectStatus
  | FundsAdded uint256 uint256
  | FundsWithdrawn uint256 address
  | Paused address
  | Unpaused address
  | RoleGranted role address address
  | RoleRevoked role address address

text \<open>
  The contract's storage, together with what the inherited contracts keep (the role table of
  AccessControl, the flag of Pausable), the contract's own ether balance
  (\<open>address(this).balance\<close>) and the log of emitted events. A Solidity mapping is total: a
  key never written reads as the zero value of its type.
\<close>

record state =
  projects :: "uint256 \<Rightarrow> Project"
  milestones :: "uint256 \<Rightarrow> Milestone"
  producerProjects :: "address \<Rightarrow> uint256 list"
  nextProjectId :: uint256
  nextMilestoneId :: uint256
  totalSubsidyPool :: uint256
  totalDisbursed :: uint256
  roles :: "role \<Rightarrow> address \<Rightarrow> bool"
  paused :: bool
  balance :: uint256
  events :: "event list"

text \<open>
  What a transaction brings with it: \<open>msg.sender\<close>, \<open>block.timestamp\<close>, \<open>msg.value\<close>, and
  whether the recipient of the transaction's outgoing \<open>transfer\<close> accepts the ether
  (\<open>transfer\<close> reverts when the recipient is a contract that refuses it or needs more than
  the 2300 gas stipend; the stipend also rules out any re-entrant state change).
\<close>

record ctx =
  sender :: address
  timestamp :: uint256
  msg_value :: uint256
  recipient_accepts :: bool

definition zeroProject :: Project where
  "zeroProject = \<lparr>p_id = 0, producer = 0, p_name = [], p_description = [],
     totalSubsidyAmount = 0, disbursedAmount = 0, createdAt = 0, p_status = P_Pending,
     milestoneIds = [], p_milestoneExists = (\<lambda>_. False)\<rparr>"

definition zeroMilestone :: Milestone where
  "zeroMilestone = \<lparr>m_id = 0, projectId = 0, m_description = [], subsidyAmount = 0,
     targetValue = 0, actualValue = 0, verificationSource = [], deadline = 0,
     m_status = M_Pending, verifiedAt = 0, verifiedBy = 0, paid = False\<rparr>"

text \<open>The constructor: the deployer gets the admin and the government role.\<close>

definition init :: "address \<Rightarrow> state" where
  "init deployer = \<lparr>projects = (\<lambda>_. zeroProject), milestones = (\<lambda>_. zeroMilestone),
     producerProjects = (\<lambda>_. []), nextProjectId = 1, nextMilestoneId = 1,
     totalSubsidyPool = 0, totalDisbursed = 0,
     roles = (\<lambda>r a. (r = DEFAULT_ADMIN_ROLE \<or> r = GOVERNMENT_ROLE) \<and> a = deployer),
     paused = False, balance = 0,
     events = [RoleGranted DEFAULT_ADMIN_ROLE deployer deployer,
               RoleGranted GOVERNMENT_ROLE deployer deployer]\<rparr>"

section \<open>GreenHydrogenSubsidy: inherited library functions\<close>

definition hasRole :: "state \<Rightarrow> role \<Rightarrow> address \<Rightarrow> bool" where
  "hasRole s r a = roles s r a"

text \<open>\<open>_grantRole\<close> and \<open>_revokeRole\<close> of AccessControl write and emit only on a change.\<close>

definition grantRoleInternal :: "ctx \<Rightarrow> role \<Rightarrow> address \<Rightarrow> state \<Rightarrow> state" where
  "grantRoleInternal c r a s =
     (if hasRole s r a then s
      else s\<lparr>roles := (roles s)(r := (roles s r)(a := True)),
             events := events s @ [RoleGranted r a (sender c)]\<rparr>)"

definition revokeRoleInternal :: "ctx \<Rightarrow> role \<Rightarrow> address \<Rightarrow> state \<Rightarrow> state" where
  "revokeRoleInternal c r a s =
     (if hasRole s r a
      then s\<lparr>roles := (roles s)(r := (roles s r)(a := False)),
             events := events s @ [RoleRevoked r a (sender c)]\<rparr>
      else s)"

text \<open>The public \<open>grantRole\<close> and \<open>revokeRole\<close> are guarded by the admin role of the role
  granted, which is \<open>DEFAULT_ADMIN_ROLE\<close> for every role of this contract.\<close>

definition grantRole :: "ctx \<Rightarrow> role \<Rightarrow> address \<Rightarrow> state \<Rightarrow> error + state" where
  "grantRole c r a s =
     (if \<not> hasRole s DEFAULT_ADMIN_ROLE (sender c) then Inl MissingRole
      else Inr (grantRoleInternal c r a s))"

definition revokeRole :: "ctx \<Rightarrow> role \<Rightarrow> address \<Rightarrow> state \<Rightarrow> error + state" where
  "revokeRole c r a s =
     (if \<not> hasRole s DEFAULT_ADMIN_ROLE (sender c) then Inl MissingRole
      else Inr (revokeRoleInternal c r a s))"

definition renounceRole :: "ctx \<Rightarrow> role \<Rightarrow> address \<Rightarrow> state \<Rightarrow> error + state" where
  "renounceRole c r a s =
     (if a \<noteq> sender c then Inl RenounceNotSelf
      else Inr (revokeRoleInternal c r a s))"

section \<open>GreenHydrogenSubsidy: operations\<close>

definition addFunds :: "ctx \<Rightarrow> state \<Rightarrow> error + state" where
  "addFunds c s =
     (if \<not> hasRole s GOVERNMENT_ROLE (sender c) then Inl OnlyGovernment
      else if \<not> msg_value c > 0 then Inl AmountMustBePositive
      else case safeAdd (totalSubsidyPool s) (msg_value c) of
             Inl e \<Rightarrow> Inl e
           | Inr newTotal \<Rightarrow>
               Inr (s\<lparr>totalSubsidyPool := newTotal,
                      events := events s @ [FundsAdded (msg_value c) newTotal]\<rparr>))"

definition registerProject ::
  "ctx \<Rightarrow> address \<Rightarrow> string \<Rightarrow> string \<Rightarrow> uint256 \<Rightarrow> state \<Rightarrow> error + (uint256 \<times> state)" where
  "registerProject c producer' name' description' amount s =
     (if \<not> hasRole s GOVERNMENT_ROLE (sender c) then Inl OnlyGovernment
      else if producer' = 0 then Inl InvalidProducerAddress
      else if \<not> length name' > 0 then Inl ProjectNameEmpty
      else if \<not> amount > 0 then Inl SubsidyAmountZero
      else case safeSub (totalSubsidyPool s) (totalDisbursed s) of
             Inl e \<Rightarrow> Inl e
           | Inr available \<Rightarrow>
        if \<not> amount \<le> available then Inl InsufficientSubsidyPool
        else if \<not> nextProjectId s < MAX_UINT256 then Inl ArithmeticOverflow
        else
          let projectId = nextProjectId s;
              project = (projects s projectId)\<lparr>p_id := projectId, producer := producer',
                 p_name := name', p_description := description',
                 totalSubsidyAmount := amount, disbursedAmount := 0,
                 createdAt := timestamp c, p_status := P_Pending\<rparr>;
              s1 = s\<lparr>nextProjectId := projectId + 1,
                     projects := (projects s)(projectId := project),
                     producerProjects := (producerProjects s)
                        (producer' := producerProjects s producer' @ [projectId])\<rparr>
          in case grantRole c PRODUCER_ROLE producer' s1 of
               Inl e \<Rightarrow> Inl e
             | Inr s2 \<Rightarrow>
                 Inr (projectId,
                      s2\<lparr>events := events s2 @
                           [ProjectRegistered projectId producer' name' amount]\<rparr>))"

definition addMilestone ::
  "ctx \<Rightarrow> uint256 \<Rightarrow> string \<Rightarrow> uint256 \<Rightarrow> uint256 \<Rightarrow> string \<Rightarrow> uint256 \<Rightarrow> state
     \<Rightarrow> error + (uint256 \<times> state)" where
  "addMilestone c pid description' amount target source' deadline' s =
     (if \<not> hasRole s GOVERNMENT_ROLE (sender c) then Inl OnlyGovernment
      else if \<not> (pid > 0 \<and> pid < nextProjectId s) then Inl ProjectDoesNotExist
      else if \<not> length description' > 0 then Inl DescriptionEmpty
      else if \<not> amount > 0 then Inl SubsidyAmountZero
      else if \<not> target > 0 then Inl TargetValueZero
      else if \<not> deadline' > timestamp c then Inl DeadlineNotInFuture
      else
        let project = projects s pid in
        if \<not> (p_status project = P_Pending \<or> p_status project = P_Active)
          then Inl ProjectNotActive
        else case safeAdd (disbursedAmount project) amount of
               Inl e \<Rightarrow> Inl e
             | Inr committed \<Rightarrow>
          if \<not> committed \<le> totalSubsidyAmount project then Inl ExceedsProjectSubsidyLimit
          else if \<not> nextMilestoneId s < MAX_UINT256 then Inl ArithmeticOverflow
          else
            let milestoneId = nextMilestoneId s;
                milestone = \<lparr>m_id = milestoneId, projectId = pid,
                   m_description = description', subsidyAmount = amount,
                   targetValue = target, actualValue = 0, verificationSource = source',
                   deadline = deadline', m_status = M_Pending, verifiedAt = 0,
                   verifiedBy = 0, paid = False\<rparr>;
                project1 = project\<lparr>milestoneIds := milestoneIds project @ [milestoneId],
                   p_milestoneExists := (p_milestoneExists project)(milestoneId := True)\<rparr>;
                activate = (p_status project1 = P_Pending);
                project2 = (if activate then project1\<lparr>p_status := P_Active\<rparr> else project1)
            in Inr (milestoneId,
                 s\<lparr>nextMilestoneId := milestoneId + 1,
                   milestones := (milestones s)(milestoneId := milestone),
                   projects := (projects s)(pid := project2),
                   events := events s @
                     (if activate then [ProjectStatusChanged pid P_Pending P_Active] else []) @
                     [MilestoneAdded pid milestoneId description' amount]\<rparr>))"

text \<open>The loop of \<open>_checkProjectCompletion\<close> over \<open>milestoneIds\<close>, with its \<open>break\<close>.\<close>

fun allMilestonesCompleted :: "(uint256 \<Rightarrow> Milestone) \<Rightarrow> uint256 list \<Rightarrow> bool" where
  "allMilestonesCompleted ms [] = True"
| "allMilestonesCompleted ms (i # is) =
     (if m_status (ms i) \<noteq> M_Verified \<or> \<not> paid (ms i) then False
      else allMilestonesCompleted ms is)"

definition checkProjectCompletion :: "uint256 \<Rightarrow> state \<Rightarrow> state" where
  "checkProjectCompletion pid s =
     (let project = projects s pid in
      if allMilestonesCompleted (milestones s) (milestoneIds project)
         \<and> length (milestoneIds project) > 0
      then s\<lparr>projects := (projects s)(pid := project\<lparr>p_status := P_Completed\<rparr>),
             events := events s @ [ProjectStatusChanged pid (p_status project) P_Completed]\<rparr>
      else s)"

definition processMilestonePayment :: "ctx \<Rightarrow> uint256 \<Rightarrow> state \<Rightarrow> error + state" where
  "processMilestonePayment c mid s =
     (let milestone = milestones s mid in
      if m_status milestone \<noteq> M_Verified then Inl MilestoneNotVerified
      else if paid milestone then Inl AlreadyPaid
      else
        let project = projects s (projectId milestone) in
        if p_status project \<noteq> P_Active then Inl ProjectNotActive
        else
          let paymentAmount = subsidyAmount milestone in
          if \<not> balance s \<ge> paymentAmount then Inl InsufficientContractBalance
          else case safeAdd (disbursedAmount project) paymentAmount of
                 Inl e \<Rightarrow> Inl e
               | Inr disbursed \<Rightarrow>
            case safeAdd (totalDisbursed s) paymentAmount of
              Inl e \<Rightarrow> Inl e
            | Inr newTotal \<Rightarrow>
              if \<not> recipient_accepts c then Inl TransferFailed
              else Inr (checkProjectCompletion (projectId milestone)
                (s\<lparr>milestones := (milestones s)(mid := milestone\<lparr>paid := True\<rparr>),
                   projects := (projects s)
                     (projectId milestone := project\<lparr>disbursedAmount := disbursed\<rparr>),
                   totalDisbursed := newTotal,
                   balance := balance s - paymentAmount,
                   events := events s @
                     [SubsidyDisbursed (projectId milestone) mid (producer project)
                        paymentAmount]\<rparr>)))"

definition verifyMilestone :: "ctx \<Rightarrow> uint256 \<Rightarrow> uint256 \<Rightarrow> bool \<Rightarrow> state \<Rightarrow> error + state" where
  "verifyMilestone c mid actual success s =
     (if \<not> (mid > 0 \<and> mid < nextMilestoneId s) then Inl MilestoneDoesNotExist
      else if \<not> (hasRole s ORACLE_ROLE (sender c) \<or> hasRole s AUDITOR_ROLE (sender c))
        then Inl UnauthorizedVerifier
      else
        let milestone = milestones s mid in
        if m_status milestone \<noteq> M_Pending then Inl MilestoneAlreadyProcessed
        else if \<not> timestamp c \<le> deadline milestone then Inl MilestoneDeadlinePassed
        else
          let milestone1 = milestone\<lparr>actualValue := actual, verifiedAt := timestamp c,
                 verifiedBy := sender c\<rparr>
          in case
               (if success \<and> actual \<ge> targetValue milestone1
                then processMilestonePayment c mid
                       (s\<lparr>milestones := (milestones s)
                            (mid := milestone1\<lparr>m_status := M_Verified\<rparr>)\<rparr>)
                else Inr (s\<lparr>milestones := (milestones s)
                            (mid := milestone1\<lparr>m_status := M_Failed\<rparr>)\<rparr>))
             of Inl e \<Rightarrow> Inl e
              | Inr s1 \<Rightarrow>
                  Inr (s1\<lparr>events := events s1 @ [MilestoneVerified mid actual (sender c)]\<rparr>))"

definition updateProjectStatus :: "ctx \<Rightarrow> uint256 \<Rightarrow> ProjectStatus \<Rightarrow> state \<Rightarrow> error + state" where
  "updateProjectStatus c pid newStatus s =
     (if \<not> hasRole s GOVERNMENT_ROLE (sender c) then Inl OnlyGovernment
      else if \<not> (pid > 0 \<and> pid < nextProjectId s) then Inl ProjectDoesNotExist
      else
        let project = projects s pid in
        Inr (s\<lparr>projects := (projects s)(pid := project\<lparr>p_status := newStatus\<rparr>),
               events := events s @ [ProjectStatusChanged pid (p_status project) newStatus]\<rparr>))"

definition disputeMilestone :: "ctx \<Rightarrow> uint256 \<Rightarrow> state \<Rightarrow> error + state" where
  "disputeMilestone c mid s =
     (if \<not> (mid > 0 \<and> mid < nextMilestoneId s) then Inl MilestoneDoesNotExist
      else
        let milestone = milestones s mid;
            project = projects s (projectId milestone) in
        if \<not> (sender c = producer project \<or> hasRole s GOVERNMENT_ROLE (sender c))
          then Inl UnauthorizedToDispute
        else if \<not> (m_status milestone = M_Failed \<or> m_status milestone = M_Verified)
          then Inl CannotDisputePending
        else Inr (s\<lparr>milestones := (milestones s)
                      (mid := milestone\<lparr>m_status := M_Disputed\<rparr>)\<rparr>))"

definition resolveDispute :: "ctx \<Rightarrow> uint256 \<Rightarrow> bool \<Rightarrow> state \<Rightarrow> error + state" where
  "resolveDispute c mid approve s =
     (if \<not> hasRole s AUDITOR_ROLE (sender c) then Inl OnlyAuditor
      else if \<not> (mid > 0 \<and> mid < nextMilestoneId s) then Inl MilestoneDoesNotExist
      else
        let milestone = milestones s mid in
        if m_status milestone \<noteq> M_Disputed then Inl MilestoneNotDisputed
        else if approve then
          (let s1 = s\<lparr>milestones := (milestones s)
                        (mid := milestone\<lparr>m_status := M_Verified\<rparr>)\<rparr>
           in if \<not> paid (milestones s1 mid) then processMilestonePayment c mid s1
              else Inr s1)
        else Inr (s\<lparr>milestones := (milestones s)
                      (mid := milestone\<lparr>m_status := M_Failed\<rparr>)\<rparr>))"

definition emergencyWithdraw :: "ctx \<Rightarrow> uint256 \<Rightarrow> address \<Rightarrow> state \<Rightarrow> error + state" where
  "emergencyWithdraw c amount recipient s =
     (if \<not> hasRole s GOVERNMENT_ROLE (sender c) then Inl OnlyGovernment
      else if \<not> amount \<le> balance s then Inl InsufficientBalance
      else if recipient = 0 then Inl InvalidRecipient
      else if \<not> recipient_accepts c then Inl TransferFailed
      else Inr (s\<lparr>balance := balance s - amount,
                  events := events s @ [FundsWithdrawn amount recipient]\<rparr>))"

definition pause :: "ctx \<Rightarrow> state \<Rightarrow> error + state" where
  "pause c s =
     (if \<not> hasRole s GOVERNMENT_ROLE (sender c) then Inl OnlyGovernment
      else if paused s then Inl PausablePaused
      else Inr (s\<lparr>paused := True, events := events s @ [Paused (sender c)]\<rparr>))"

definition unpause :: "ctx \<Rightarrow> state \<Rightarrow> error + state" where
  "unpause c s =
     (if \<not> hasRole s GOVERNMENT_ROLE (sender c) then Inl OnlyGovernment
      else if \<not> paused s then Inl PausableNotPaused
      else Inr (s\<lparr>paused := False, events := events s @ [Unpaused (sender c)]\<rparr>))"

text \<open>The \<open>receive\<close> function, run when ether is sent to the contract with empty calldata.\<close>

definition receive :: "ctx \<Rightarrow> state \<Rightarrow> error + state" where
  "receive c s =
     (case safeAdd (totalSubsidyPool s) (msg_value c) of
        Inl e \<Rightarrow> Inl e
      | Inr newTotal \<Rightarrow>
          Inr (s\<lparr>totalSubsidyPool := newTotal,
                 events := events s @ [FundsAdded (msg_value c) newTotal]\<rparr>))"

definition getAvailableSubsidy :: "state \<Rightarrow> error + uint256" where
  "getAvailableSubsidy s = safeSub (totalSubsidyPool s) (totalDisbursed s)"

definition getContractBalance :: "state \<Rightarrow> uint256" where
  "getContractBalance s = balance s"

section \<open>GreenHydrogenSubsidy: transactions\<close>

datatype op =
    AddFunds
  | Receive
  | RegisterProject address string string uint256
  | AddMilestone uint256 string uint256 uint256 string uint256
  | VerifyMilestone uint256 uint256 bool
  | UpdateProjectStatus uint256 ProjectStatus
  | DisputeMilestone uint256
  | ResolveDispute uint256 bool
  | EmergencyWithdraw uint256 address
  | Pause
  | Unpause
  | GrantRole role address
  | RevokeRole role address
  | RenounceRole role address
  | ForceEther uint256

text \<open>
  All constructors but the last are calls of the contract's external functions.
  \<open>ForceEther v\<close> is not a call: it stands for \<open>v\<close> wei credited to the contract's account
  with none of its code run (the \<open>selfdestruct\<close> of another contract naming it as beneficiary,
  a block reward, ether sent to the address before deployment). It cannot revert, it ignores the
  transaction context, and it changes \<open>address(this).balance\<close> and nothing else.
\<close>

fun is_call :: "op \<Rightarrow> bool" where
  "is_call (ForceEther v) = False"
| "is_call _ = True"

fun forced_amount :: "op \<Rightarrow> uint256" where
  "forced_amount (ForceEther v) = v"
| "forced_amount _ = 0"

fun payable :: "op \<Rightarrow> bool" where
  "payable AddFunds = True"
| "payable Receive = True"
| "payable _ = False"

definition dropResult :: "error + ('a \<times> state) \<Rightarrow> error + state" where
  "dropResult r = (case r of Inl e \<Rightarrow> Inl e | Inr (_, s) \<Rightarrow> Inr s)"

fun dispatch :: "ctx \<Rightarrow> op \<Rightarrow> state \<Rightarrow> error + state" where
  "dispatch c AddFunds s = addFunds c s"
| "dispatch c Receive s = receive c s"
| "dispatch c (RegisterProject a n d t) s = dropResult (registerProject c a n d t s)"
| "dispatch c (AddMilestone p d a t v dl) s = dropResult (addMilestone c p d a t v dl s)"
| "dispatch c (VerifyMilestone m a ok) s = verifyMilestone c m a ok s"
| "dispatch c (UpdateProjectStatus p st) s = updateProjectStatus c p st s"
| "dispatch c (DisputeMilestone m) s = disputeMilestone c m s"
| "dispatch c (ResolveDispute m ok) s = resolveDispute c m ok s"
| "dispatch c (EmergencyWithdraw a r) s = emergencyWithdraw c a r s"
| "dispatch c Pause s = pause c s"
| "dispatch c Unpause s = unpause c s"
| "dispatch c (GrantRole r a) s = grantRole c r a s"
| "dispatch c (RevokeRole r a) s = revokeRole c r a s"
| "dispatch c (RenounceRole r a) s = renounceRole c r a s"
| "dispatch c (ForceEther v) s = Inr (s\<lparr>balance := balance s + v\<rparr>)"

text \<open>
  One transition. For a call: a function that is not \<open>payable\<close> reverts when ether is
  attached; a payable one sees the contract balance already increased by \<open>msg.value\<close>. A
  revert is \<open>Inl\<close>. Forced ether is credited as it is.
\<close>

definition step :: "ctx \<Rightarrow> op \<Rightarrow> state \<Rightarrow> error + state" where
  "step c o' s =
     (if \<not> is_call o' then dispatch c o' s
      else if payable o' then dispatch c o' (s\<lparr>balance := balance s + msg_value c\<rparr>)
      else if msg_value c > 0 then Inl NotPayable
      else dispatch c o' s)"

text \<open>A reverted transaction leaves the state as it was; a history is a list of
  transitions applied from the constructor's state.\<close>

definition apply_call :: "ctx \<times> op \<Rightarrow> state \<Rightarrow> state" where
  "apply_call co s = (case step (fst co) (snd co) s of Inl e \<Rightarrow> s | Inr s' \<Rightarrow> s')"

fun exec :: "(ctx \<times> op) list \<Rightarrow> state \<Rightarrow> state" where
  "exec [] s = s"
| "exec (co # cos) s = exec cos (apply_call co s)"

section \<open>DataOracle: data and operations\<close>

text \<open>
  The second contract, \<open>DataOracle\<close>. A \<open>bytes32\<close> is a 256-bit word. The hash
  \<open>keccak256(abi.encodePacked(_source, _value, block.timestamp, msg.sender))\<close> is a parameter
  of the model: a function of exactly these four values into \<open>bytes32\<close>.
\<close>

type_synonym bytes32 = "256 word"

datatype DataSourceType = IoTDevice | GovernmentDB | ThirdPartyVerifier | Manual

datatype oracle_role = ORACLE_ADMIN_ROLE | ORACLE_OPERATOR_ROLE | DATA_PROVIDER_ROLE

record DataPoint =
  dp_value :: uint256
  dp_timestamp :: uint256
  dp_source :: string
  dp_sourceType :: DataSourceType
  verifier :: address
  isVerified :: bool
  metadata :: string

datatype oracle_event =
    DataSubmitted bytes32 string uint256 address
  | DataVerified bytes32 bool address
  | TrustedSourceAdded string DataSourceType
  | TrustedSourceRemoved string
  | VerificationThresholdUpdated DataSourceType uint256
  | OraclePaused address
  | OracleUnpaused address
  | OracleRoleGranted oracle_role address address
  | OracleRoleRevoked oracle_role address address

record oracle_state =
  trustedSources :: "string \<Rightarrow> bool"
  sourceTypes :: "string \<Rightarrow> DataSourceType"
  dataPoints :: "bytes32 \<Rightarrow> DataPoint"
  sourceDataHistory :: "string \<Rightarrow> bytes32 list"
  verificationThresholds :: "DataSourceType \<Rightarrow> uint256"
  sourceReliabilityScore :: "string \<Rightarrow> uint256"
  o_roles :: "oracle_role \<Rightarrow> address \<Rightarrow> bool"
  o_paused :: bool
  o_events :: "oracle_event list"

definition zeroDataPoint :: DataPoint where
  "zeroDataPoint = \<lparr>dp_value = 0, dp_timestamp = 0, dp_source = [], dp_sourceType = IoTDevice,
     verifier = 0, isVerified = False, metadata = []\<rparr>"

fun defaultThreshold :: "DataSourceType \<Rightarrow> uint256" where
  "defaultThreshold IoTDevice = 85"
| "defaultThreshold GovernmentDB = 95"
| "defaultThreshold ThirdPartyVerifier = 90"
| "defaultThreshold Manual = 75"

definition oracle_init :: "address \<Rightarrow> oracle_state" where
  "oracle_init deployer = \<lparr>trustedSources = (\<lambda>_. False), sourceTypes = (\<lambda>_. IoTDevice),
     dataPoints = (\<lambda>_. zeroDataPoint), sourceDataHistory = (\<lambda>_. []),
     verificationThresholds = defaultThreshold, sourceReliabilityScore = (\<lambda>_. 0),
     o_roles = (\<lambda>r a. (r = ORACLE_ADMIN_ROLE \<or> r = ORACLE_OPERATOR_ROLE) \<and> a = deployer),
     o_paused = False,
     o_events = [OracleRoleGranted ORACLE_ADMIN_ROLE deployer deployer,
                 OracleRoleGranted ORACLE_OPERATOR_ROLE deployer deployer]\<rparr>"

definition addTrustedSource :: "ctx \<Rightarrow> string \<Rightarrow> DataSourceType \<Rightarrow> oracle_state \<Rightarrow> error + oracle_state" where
  "addTrustedSource c source' sourceType' s =
     (if \<not> o_roles s ORACLE_OPERATOR_ROLE (sender c) then Inl MissingRole
      else Inr (s\<lparr>trustedSources := (trustedSources s)(source' := True),
                  sourceTypes := (sourceTypes s)(source' := sourceType'),
                  sourceReliabilityScore := (sourceReliabilityScore s)
                     (source' := verificationThresholds s sourceType'),
                  o_events := o_events s @ [TrustedSourceAdded source' sourceType']\<rparr>))"

definition removeTrustedSource :: "ctx \<Rightarrow> string \<Rightarrow> oracle_state \<Rightarrow> error + oracle_state" where
  "removeTrustedSource c source' s =
     (if \<not> o_roles s ORACLE_OPERATOR_ROLE (sender c) then Inl MissingRole
      else Inr (s\<lparr>trustedSources := (trustedSources s)(source' := False),
                  sourceTypes := (sourceTypes s)(source' := IoTDevice),
                  sourceReliabilityScore := (sourceReliabilityScore s)(source' := 0),
                  o_events := o_events s @ [TrustedSourceRemoved source']\<rparr>))"

type_synonym hash = "string \<Rightarrow> uint256 \<Rightarrow> uint256 \<Rightarrow> address \<Rightarrow> bytes32"

definition submitData ::
  "hash \<Rightarrow> ctx \<Rightarrow> string \<Rightarrow> uint256 \<Rightarrow> string \<Rightarrow> oracle_state \<Rightarrow> error + (bytes32 \<times> oracle_state)" where
  "submitData keccak c source' value' metadata' s =
     (if \<not> o_roles s DATA_PROVIDER_ROLE (sender c) then Inl MissingRole
      else if \<not> trustedSources s source' then Inl SourceNotTrusted
      else if o_paused s then Inl PausablePaused
      else
        let dataId = keccak source' value' (timestamp c) (sender c) in
        Inr (dataId,
          s\<lparr>dataPoints := (dataPoints s)(dataId :=
               \<lparr>dp_value = value', dp_timestamp = timestamp c, dp_source = source',
                dp_sourceType = sourceTypes s source', verifier = sender c,
                isVerified = False, metadata = metadata'\<rparr>),
            sourceDataHistory := (sourceDataHistory s)
               (source' := sourceDataHistory s source' @ [dataId]),
            o_events := o_events s @ [DataSubmitted dataId source' value' (sender c)]\<rparr>))"

definition verifyData :: "ctx \<Rightarrow> bytes32 \<Rightarrow> bool \<Rightarrow> oracle_state \<Rightarrow> error + oracle_state" where
  "verifyData c dataId verified s =
     (if \<not> o_roles s ORACLE_OPERATOR_ROLE (sender c) then Inl MissingRole
      else if \<not> dp_timestamp (dataPoints s dataId) > 0 then Inl DataPointDoesNotExist
      else Inr (s\<lparr>dataPoints := (dataPoints s)(dataId :=
                     (dataPoints s dataId)\<lparr>isVerified := verified, verifier := sender c\<rparr>),
                  o_events := o_events s @ [DataVerified dataId verified (sender c)]\<rparr>))"

text \<open>
  The three loops of the queries, each as a recursive function on the loop index. A write to a
  memory array beyond its length panics in Solidity; the model returns \<open>IndexOutOfBounds\<close>.
  The sum \<open>totalValue += values[i]\<close> is checked arithmetic. The loop counters themselves are
  bounded by the length of an array in memory and are not checked again.
\<close>

function countLoop ::
  "(bytes32 \<Rightarrow> DataPoint) \<Rightarrow> bytes32 list \<Rightarrow> uint256 \<Rightarrow> uint256 \<Rightarrow> nat \<Rightarrow> nat \<Rightarrow> nat" where
  "countLoop dps sourceData fromTimestamp toTimestamp i validCount =
     (if i < length sourceData then
        (let dp = dps (sourceData ! i) in
         countLoop dps sourceData fromTimestamp toTimestamp (i + 1)
           (if isVerified dp \<and> dp_timestamp dp \<ge> fromTimestamp
                 \<and> dp_timestamp dp \<le> toTimestamp
            then validCount + 1 else validCount))
      else validCount)"
  by pat_completeness auto

termination
  by (relation "measure (\<lambda>(dps, sourceData, f, t, i, n). length sourceData - i)") auto

function fillLoop ::
  "(bytes32 \<Rightarrow> DataPoint) \<Rightarrow> bytes32 list \<Rightarrow> uint256 \<Rightarrow> uint256 \<Rightarrow> nat \<Rightarrow>
     bytes32 list \<Rightarrow> uint256 list \<Rightarrow> nat \<Rightarrow> error + (bytes32 list \<times> uint256 list)" where
  "fillLoop dps sourceData fromTimestamp toTimestamp i validDataIds values index =
     (if i < length sourceData then
        (let dp = dps (sourceData ! i) in
         if isVerified dp \<and> dp_timestamp dp \<ge> fromTimestamp
              \<and> dp_timestamp dp \<le> toTimestamp then
           if index < length validDataIds \<and> index < length values then
             fillLoop dps sourceData fromTimestamp toTimestamp (i + 1)
               (validDataIds[index := sourceData ! i])
               (values[index := dp_value dp]) (index + 1)
           else Inl IndexOutOfBounds
         else fillLoop dps sourceData fromTimestamp toTimestamp (i + 1)
                validDataIds values index)
      else Inr (validDataIds, values))"
  by pat_completeness auto

termination
  by (relation "measure (\<lambda>(dps, sourceData, f, t, i, r). length sourceData - i)") auto

declare countLoop.simps [simp del]

declare fillLoop.simps [simp del]

definition getVerifiedData ::
  "oracle_state \<Rightarrow> string \<Rightarrow> uint256 \<Rightarrow> uint256 \<Rightarrow> error + (bytes32 list \<times> uint256 list)" where
  "getVerifiedData s source' fromTimestamp toTimestamp =
     (let sourceData = sourceDataHistory s source';
          validCount = countLoop (dataPoints s) sourceData fromTimestamp toTimestamp 0 0
      in fillLoop (dataPoints s) sourceData fromTimestamp toTimestamp 0
           (replicate validCount 0) (replicate validCount 0) 0)"

function sumLoop :: "uint256 list \<Rightarrow> nat \<Rightarrow> uint256 \<Rightarrow> error + uint256" where
  "sumLoop values i totalValue =
     (if i < length values then
        case safeAdd totalValue (values ! i) of
          Inl e \<Rightarrow> Inl e
        | Inr t \<Rightarrow> sumLoop values (i + 1) t
      else Inr totalValue)"
  by pat_completeness auto

termination
  by (relation "measure (\<lambda>(values, i, t). length values - i)") auto

declare sumLoop.simps [simp del]

definition getAggregateValue ::
  "oracle_state \<Rightarrow> string \<Rightarrow> uint256 \<Rightarrow> uint256 \<Rightarrow> error + (uint256 \<times> uint256)" where
  "getAggregateValue s source' fromTimestamp toTimestamp =
     (case getVerifiedData s source' fromTimestamp toTimestamp of
        Inl e \<Rightarrow> Inl e
      | Inr (validDataIds, values) \<Rightarrow>
          (case sumLoop values 0 0 of
             Inl e \<Rightarrow> Inl e
           | Inr totalValue \<Rightarrow> Inr (totalValue, length validDataIds)))"

definition updateVerificationThreshold ::
  "ctx \<Rightarrow> DataSourceType \<Rightarrow> uint256 \<Rightarrow> oracle_state \<Rightarrow> error + oracle_state" where
  "updateVerificationThreshold c sourceType' newThreshold s =
     (if \<not> o_roles s ORACLE_OPERATOR_ROLE (sender c) then Inl MissingRole
      else if \<not> newThreshold \<le> 100 then Inl ThresholdExceeds100
      else Inr (s\<lparr>verificationThresholds :=
                     (verificationThresholds s)(sourceType' := newThreshold),
                  o_events := o_events s @
                     [VerificationThresholdUpdated sourceType' newThreshold]\<rparr>))"

definition updateSourceReliability ::
  "ctx \<Rightarrow> string \<Rightarrow> uint256 \<Rightarrow> oracle_state \<Rightarrow> error + oracle_state" where
  "updateSourceReliability c source' newScore s =
     (if \<not> o_roles s ORACLE_OPERATOR_ROLE (sender c) then Inl MissingRole
      else if \<not> trustedSources s source' then Inl SourceNotTrusted
      else if \<not> newScore \<le> 100 then Inl ScoreExceeds100
      else Inr (s\<lparr>sourceReliabilityScore :=
                     (sourceReliabilityScore s)(source' := newScore)\<rparr>))"

definition oracle_pause :: "ctx \<Rightarrow> oracle_state \<Rightarrow> error + oracle_state" where
  "oracle_pause c s =
     (if \<not> o_roles s ORACLE_OPERATOR_ROLE (sender c) then Inl MissingRole
      else if o_paused s then Inl PausablePaused
      else Inr (s\<lparr>o_paused := True, o_events := o_events s @ [OraclePaused (sender c)]\<rparr>))"

definition oracle_unpause :: "ctx \<Rightarrow> oracle_state \<Rightarrow> error + oracle_state" where
  "oracle_unpause c s =
     (if \<not> o_roles s ORACLE_OPERATOR_ROLE (sender c) then Inl MissingRole
      else if \<not> o_paused s then Inl PausableNotPaused
      else Inr (s\<lparr>o_paused := False, o_events := o_events s @ [OracleUnpaused (sender c)]\<rparr>))"

definition oracle_grantRole ::
  "ctx \<Rightarrow> oracle_role \<Rightarrow> address \<Rightarrow> oracle_state \<Rightarrow> error + oracle_state" where
  "oracle_grantRole c r a s =
     (if \<not> o_roles s ORACLE_ADMIN_ROLE (sender c) then Inl MissingRole
      else if o_roles s r a then Inr s
      else Inr (s\<lparr>o_roles := (o_roles s)(r := (o_roles s r)(a := True)),
                  o_events := o_events s @ [OracleRoleGranted r a (sender c)]\<rparr>))"

definition oracle_revokeRole ::
  "ctx \<Rightarrow> oracle_role \<Rightarrow> address \<Rightarrow> oracle_state \<Rightarrow> error + oracle_state" where
  "oracle_revokeRole c r a s =
     (if \<not> o_roles s ORACLE_ADMIN_ROLE (sender c) then Inl MissingRole
      else if \<not> o_roles s r a then Inr s
      else Inr (s\<lparr>o_roles := (o_roles s)(r := (o_roles s r)(a := False)),
                  o_events := o_events s @ [OracleRoleRevoked r a (sender c)]\<rparr>))"

definition oracle_renounceRole ::
  "ctx \<Rightarrow> oracle_role \<Rightarrow> address \<Rightarrow> oracle_state \<Rightarrow> error + oracle_state" where
  "oracle_renounceRole c r a s =
     (if a \<noteq> sender c then Inl RenounceNotSelf
      else if \<not> o_roles s r a then Inr s
      else Inr (s\<lparr>o_roles := (o_roles s)(r := (o_roles s r)(a := False)),
                  o_events := o_events s @ [OracleRoleRevoked r a (sender c)]\<rparr>))"

definition isSourceTrusted :: "oracle_state \<Rightarrow> string \<Rightarrow> bool" where
  "isSourceTrusted s source' = trustedSources s source'"

text \<open>No function of the oracle is payable. A query takes the state and returns a value only,
  so it cannot change the state.\<close>

datatype oracle_op =
    AddTrustedSource string DataSourceType
  | RemoveTrustedSource string
  | SubmitData string uint256 string
  | VerifyData bytes32 bool
  | UpdateVerificationThreshold DataSourceType uint256
  | UpdateSourceReliability string uint256
  | OraclePause
  | OracleUnpause
  | OracleGrantRole oracle_role address
  | OracleRevokeRole oracle_role address
  | OracleRenounceRole oracle_role address

definition dropId :: "error + (bytes32 \<times> oracle_state) \<Rightarrow> error + oracle_state" where
  "dropId r = (case r of Inl e \<Rightarrow> Inl e | Inr (_, s) \<Rightarrow> Inr s)"

fun oracle_dispatch :: "hash \<Rightarrow> ctx \<Rightarrow> oracle_op \<Rightarrow> oracle_state \<Rightarrow> error + oracle_state" where
  "oracle_dispatch keccak c (AddTrustedSource src ty) s = addTrustedSource c src ty s"
| "oracle_dispatch keccak c (RemoveTrustedSource src) s = removeTrustedSource c src s"
| "oracle_dispatch keccak c (SubmitData src v md) s = dropId (submitData keccak c src v md s)"
| "oracle_dispatch keccak c (VerifyData i ok) s = verifyData c i ok s"
| "oracle_dispatch keccak c (UpdateVerificationThreshold ty n) s =
     updateVerificationThreshold c ty n s"
| "oracle_dispatch keccak c (UpdateSourceReliability src n) s = updateSourceReliability c src n s"
| "oracle_dispatch keccak c OraclePause s = oracle_pause c s"
| "oracle_dispatch keccak c OracleUnpause s = oracle_unpause c s"
| "oracle_dispatch keccak c (OracleGrantRole r a) s = oracle_grantRole c r a s"
| "oracle_dispatch keccak c (OracleRevokeRole r a) s = oracle_revokeRole c r a s"
| "oracle_dispatch keccak c (OracleRenounceRole r a) s = oracle_renounceRole c r a s"

definition oracle_step :: "hash \<Rightarrow> ctx \<Rightarrow> oracle_op \<Rightarrow> oracle_state \<Rightarrow> error + oracle_state" where
  "oracle_step keccak c o' s =
     (if msg_value c > 0 then Inl NotPayable else oracle_dispatch keccak c o' s)"

definition oracle_apply :: "hash \<Rightarrow> ctx \<times> oracle_op \<Rightarrow> oracle_state \<Rightarrow> oracle_state" where
  "oracle_apply keccak co s =
     (case oracle_step keccak (fst co) (snd co) s of Inl e \<Rightarrow> s | Inr s' \<Rightarrow> s')"

fun oracle_exec :: "hash \<Rightarrow> (ctx \<times> oracle_op) list \<Rightarrow> oracle_state \<Rightarrow> oracle_state" where
  "oracle_exec keccak [] s = s"
| "oracle_exec keccak (co # cos) s = oracle_exec keccak cos (oracle_apply keccak co s)"

section \<open>Specification vocabulary\<close>

text \<open>
  Names used to state the properties: the sum the conservation property speaks of, a counter of
  payment transitions along a run, the invariants of the ledger, and concrete runs taken from
  the repository's test suite (deployer 1, auditor 2, oracle 3, producers 4 and 5, a data
  provider 6).
\<close>

definition tx :: "address \<Rightarrow> uint256 \<Rightarrow> uint256 \<Rightarrow> ctx" where
  "tx a t v = \<lparr>sender = a, timestamp = t, msg_value = v, recipient_accepts = True\<rparr>"

definition paidSum :: "(uint256 \<Rightarrow> Milestone) \<Rightarrow> uint256 \<Rightarrow> nat" where
  "paidSum ms n = sum_list (map (\<lambda>i. if paid (ms i) then subsidyAmount (ms i) else 0) [1..<n])"

definition paid_sum :: "state \<Rightarrow> nat" where
  "paid_sum s = paidSum (milestones s) (nextMilestoneId s)"

definition fresh_inv :: "state \<Rightarrow> bool" where
  "fresh_inv s \<longleftrightarrow> 1 \<le> nextMilestoneId s \<and>
     (\<forall>i. i = 0 \<or> nextMilestoneId s \<le> i \<longrightarrow> milestones s i = zeroMilestone)"

definition funds_inv :: "state \<Rightarrow> bool" where
  "funds_inv s \<longleftrightarrow> totalDisbursed s = paid_sum s"

text \<open>The ether a run credits to the contract outside its two payable functions.\<close>

definition forced_total :: "(ctx \<times> op) list \<Rightarrow> nat" where
  "forced_total cs = sum_list (map (\<lambda>co. forced_amount (snd co)) cs)"

text \<open>
  Every successful call is of one of three kinds, seen from the milestones and the
  counters: it pays no milestone (\<open>quiet\<close>), it pays exactly one (\<open>payment\<close>), or it adds a
  fresh unpaid milestone (\<open>addition\<close>).
\<close>

definition quiet :: "state \<Rightarrow> state \<Rightarrow> bool" where
  "quiet s s' \<longleftrightarrow>
     nextMilestoneId s' = nextMilestoneId s \<and> totalDisbursed s' = totalDisbursed s \<and>
     (\<forall>i. paid (milestones s' i) = paid (milestones s i) \<and>
          subsidyAmount (milestones s' i) = subsidyAmount (milestones s i) \<and>
          (m_status (milestones s' i) = M_Pending \<longrightarrow> milestones s' i = milestones s i)) \<and>
     (\<forall>i. i = 0 \<or> nextMilestoneId s \<le> i \<longrightarrow> milestones s' i = milestones s i) \<and>
     ((totalSubsidyPool s' = totalSubsidyPool s \<and> balance s' \<le> balance s) \<or>
      (\<exists>v. totalSubsidyPool s' = totalSubsidyPool s + v \<and> balance s' = balance s + v))"

definition payment :: "uint256 \<Rightarrow> state \<Rightarrow> state \<Rightarrow> bool" where
  "payment m s s' \<longleftrightarrow>
     0 < m \<and> m < nextMilestoneId s \<and> nextMilestoneId s' = nextMilestoneId s \<and>
     \<not> paid (milestones s m) \<and>
     (\<exists>M. milestones s' = (milestones s)(m := M) \<and> paid M \<and> m_status M = M_Verified \<and>
          subsidyAmount M = subsidyAmount (milestones s m)) \<and>
     totalDisbursed s' = totalDisbursed s + subsidyAmount (milestones s m) \<and>
     totalSubsidyPool s' = totalSubsidyPool s \<and>
     balance s' + subsidyAmount (milestones s m) = balance s"

definition addition :: "state \<Rightarrow> state \<Rightarrow> bool" where
  "addition s s' \<longleftrightarrow>
     nextMilestoneId s' = nextMilestoneId s + 1 \<and>
     (\<exists>M. milestones s' = (milestones s)(nextMilestoneId s := M) \<and> \<not> paid M \<and>
          m_status M = M_Pending) \<and>
     totalDisbursed s' = totalDisbursed s \<and> totalSubsidyPool s' = totalSubsidyPool s \<and>
     balance s' = balance s"

definition paid_status_inv :: "state \<Rightarrow> bool" where
  "paid_status_inv s \<longleftrightarrow> (\<forall>i. paid (milestones s i) \<longrightarrow> m_status (milestones s i) \<noteq> M_Pending)"

definition ledger_inv :: "state \<Rightarrow> bool" where
  "ledger_inv s \<longleftrightarrow> fresh_inv s \<and> funds_inv s \<and> paid_status_inv s"

fun pay_count :: "uint256 \<Rightarrow> (ctx \<times> op) list \<Rightarrow> state \<Rightarrow> nat" where
  "pay_count m [] s = 0"
| "pay_count m (co # cs) s =
     (if \<not> paid (milestones s m) \<and> paid (milestones (apply_call co s) m) then 1 else 0)
       + pay_count m cs (apply_call co s)"

definition fixture :: "(ctx \<times> op) list" where
  "fixture = [(tx 1 1000 0, GrantRole AUDITOR_ROLE 2), (tx 1 1000 0, GrantRole ORACLE_ROLE 3),
            (tx 1 1000 10, AddFunds)]"

definition paid_scenario :: "(ctx \<times> op) list" where
  "paid_scenario = fixture @
     [(tx 1 1000 0, RegisterProject 4 ''Test Project'' ''Test Description'' 5),
      (tx 1 1000 0, AddMilestone 1 ''Produce 1000kg'' 2 1000 ''hydrogen-meter-001'' 87400)]"

definition verify_ok :: "ctx \<times> op" where
  "verify_ok = (tx 3 2000 0, VerifyMilestone 1 1500 True)"

definition dispute_scenario :: "(ctx \<times> op) list" where
  "dispute_scenario = paid_scenario @ [verify_ok, (tx 4 3000 0, DisputeMilestone 1)]"

definition overcommit_scenario :: "(ctx \<times> op) list" where
  "overcommit_scenario = fixture @
     [(tx 1 1000 0, RegisterProject 4 ''Test Project'' ''Test Description'' 5),
      (tx 1 1000 0, AddMilestone 1 ''First 1000kg'' 5 1000 ''hydrogen-meter-001'' 87400),
      (tx 1 1000 0, AddMilestone 1 ''Second 1000kg'' 5 1000 ''hydrogen-meter-001'' 87400),
      (tx 3 2000 0, VerifyMilestone 1 1500 True),
      (tx 3 2000 0, VerifyMilestone 2 1500 True)]"

definition paused_scenario :: "(ctx \<times> op) list" where
  "paused_scenario = fixture @ [(tx 1 1000 0, Pause)]"

definition register_while_paused :: "ctx \<times> op" where
  "register_while_paused = (tx 1 1000 0, RegisterProject 4 ''Test'' ''Test'' 1)"

definition forced_scenario :: "(ctx \<times> op) list" where
  "forced_scenario =
     [(tx 1 1000 0, GrantRole ORACLE_ROLE 3),
      (tx 1 1000 5, AddFunds),
      (tx 1 1000 0, RegisterProject 4 ''Plant Alpha'' ''first plant'' 5),
      (tx 1 1000 0, AddMilestone 1 ''Produce 1000kg'' 5 1000 ''hydrogen-meter-001'' 87400),
      (tx 1 1000 0, RegisterProject 5 ''Plant Beta'' ''second plant'' 5),
      (tx 1 1000 0, AddMilestone 2 ''Produce 1000kg'' 5 1000 ''hydrogen-meter-002'' 87400),
      (tx 3 2000 0, VerifyMilestone 1 1500 True),
      (tx 9 2000 0, ForceEther 5),
      (tx 3 2000 0, VerifyMilestone 2 1500 True)]"

definition drained_scenario :: "(ctx \<times> op) list" where
  "drained_scenario =
     [(tx 1 1000 0, GrantRole ORACLE_ROLE 3),
      (tx 1 1000 5, AddFunds),
      (tx 1 1000 0, RegisterProject 4 ''Plant Alpha'' ''first plant'' 5),
      (tx 1 1000 0, AddMilestone 1 ''Produce 1000kg'' 5 1000 ''hydrogen-meter-001'' 87400),
      (tx 1 1000 0, RegisterProject 5 ''Plant Beta'' ''second plant'' 5),
      (tx 1 1000 0, AddMilestone 2 ''Produce 1000kg'' 5 1000 ''hydrogen-meter-002'' 87400),
      (tx 3 2000 0, VerifyMilestone 1 1500 True)]"

text \<open>
  The submissions a run of the oracle accepted, in order, each with the four values its id is
  computed from; and the specification's reading of the query: the verified ids of a source
  whose timestamp lies in the closed range, in the order of the history.
\<close>

type_synonym submission = "string \<times> uint256 \<times> uint256 \<times> address"

definition hash_of :: "hash \<Rightarrow> submission \<Rightarrow> bytes32" where
  "hash_of keccak sub = (case sub of (src, v, t, a) \<Rightarrow> keccak src v t a)"

definition sub_source :: "submission \<Rightarrow> string" where
  "sub_source sub = fst sub"

definition sub_time :: "submission \<Rightarrow> uint256" where
  "sub_time sub = fst (snd (snd sub))"

fun accepted :: "hash \<Rightarrow> ctx \<times> oracle_op \<Rightarrow> oracle_state \<Rightarrow> submission list" where
  "accepted keccak (c, SubmitData src v md) s =
     (case oracle_step keccak c (SubmitData src v md) s of
        Inl e \<Rightarrow> []
      | Inr s' \<Rightarrow> [(src, v, timestamp c, sender c)])"
| "accepted keccak (c, _) s = []"

fun submitted :: "hash \<Rightarrow> (ctx \<times> oracle_op) list \<Rightarrow> oracle_state \<Rightarrow> submission list" where
  "submitted keccak [] s = []"
| "submitted keccak (co # cos) s =
     accepted keccak co s @ submitted keccak cos (oracle_apply keccak co s)"

definition selected :: "oracle_state \<Rightarrow> string \<Rightarrow> uint256 \<Rightarrow> uint256 \<Rightarrow> bytes32 list" where
  "selected s source' fromTime toTime =
     filter (\<lambda>i. isVerified (dataPoints s i) \<and> fromTime \<le> dp_timestamp (dataPoints s i)
                 \<and> dp_timestamp (dataPoints s i) \<le> toTime)
       (sourceDataHistory s source')"

text \<open>A stand-in for the hash in the concrete runs; it tells apart the submissions of each run
  below that differ in one of the four hashed values.\<close>

definition demo_keccak :: hash where
  "demo_keccak src v t a = word_of_nat (length src + 31 * v + 1009 * t + 100003 * a)"

definition meter :: string where
  "meter = ''hydrogen-meter-001''"

definition oracle_fixture :: "(ctx \<times> oracle_op) list" where
  "oracle_fixture = [(tx 1 1000 0, OracleGrantRole DATA_PROVIDER_ROLE 6),
                     (tx 1 1000 0, AddTrustedSource meter IoTDevice)]"

definition readings_scenario :: "(ctx \<times> oracle_op) list" where
  "readings_scenario = oracle_fixture @
     [(tx 6 2000 0, SubmitData meter 1500 ''first reading''),
      (tx 6 2500 0, SubmitData meter 700 ''second reading''),
      (tx 1 3000 0, VerifyData (demo_keccak meter 1500 2000 6) True),
      (tx 1 3000 0, VerifyData (demo_keccak meter 700 2500 6) True)]"

definition duplicate_scenario :: "(ctx \<times> oracle_op) list" where
  "duplicate_scenario = oracle_fixture @
     [(tx 6 2000 0, SubmitData meter 1500 ''first reading''),
      (tx 6 2000 0, SubmitData meter 1500 ''second reading'')]"

definition overflow_scenario :: "(ctx \<times> oracle_op) list" where
  "overflow_scenario = oracle_fixture @
     [(tx 6 2000 0, SubmitData meter (2 ^ 255) ''first reading''),
      (tx 6 2500 0, SubmitData meter (2 ^ 255) ''second reading''),
      (tx 1 3000 0, VerifyData (demo_keccak meter (2 ^ 255) 2000 6) True),
      (tx 1 3000 0, VerifyData (demo_keccak meter (2 ^ 255) 2500 6) True)]"

section \<open>Ledger invariants\<close>

text \<open>
  The proofs below first summarise what one successful transaction does to the milestones and
  the counters, then lift the summary to invariants of every state reachable from the
  constructor, and last state the properties of the specification.
\<close>

lemmas op_defs = step_def apply_call_def dropResult_def addFunds_def receive_def registerProject_def
  addMilestone_def verifyMilestone_def processMilestonePayment_def checkProjectCompletion_def
  updateProjectStatus_def disputeMilestone_def resolveDispute_def emergencyWithdraw_def
  pause_def unpause_def grantRole_def revokeRole_def renounceRole_def grantRoleInternal_def
  revokeRoleInternal_def hasRole_def safeAdd_def safeSub_def MAX_UINT256_def

text \<open>The sum over the paid milestones: it only looks at \<open>paid\<close> and \<open>subsidyAmount\<close> of the ids
  \<open>1 .. nextMilestoneId - 1\<close>, and paying one unpaid milestone in that range adds its amount.\<close>

lemma paidSum_cong:
  assumes "\<And>i. 1 \<le> i \<Longrightarrow> i < n \<Longrightarrow> paid (ms' i) = paid (ms i) \<and> subsidyAmount (ms' i) = subsidyAmount (ms i)"
  shows "paidSum ms' n = paidSum ms n"
  unfolding paidSum_def
  by (rule arg_cong[where f=sum_list], rule map_cong) (use assms in auto)

lemma paidSum_Suc: "1 \<le> n \<Longrightarrow> paidSum ms (Suc n) = paidSum ms n + (if paid (ms n) then subsidyAmount (ms n) else 0)"
  by (simp add: paidSum_def)

lemma paidSum_pay:
  assumes "1 \<le> m" "m < n" "\<not> paid (ms m)"
  shows "paidSum (ms(m := (ms m)\<lparr>paid := True\<rparr>)) n = paidSum ms n + subsidyAmount (ms m)"
proof -
  define ms' where "ms' = ms(m := (ms m)\<lparr>paid := True\<rparr>)"
  have at_m: "paid (ms' m)" "subsidyAmount (ms' m) = subsidyAmount (ms m)"
    by (simp_all add: ms'_def)
  have other: "\<And>i. i \<noteq> m \<Longrightarrow> ms' i = ms i"
    by (simp add: ms'_def)
  have "m < n \<Longrightarrow> paidSum ms' n = paidSum ms n + subsidyAmount (ms m)"
  proof (induction n)
    case 0
    then show ?case by simp
  next
    case (Suc n)
    show ?case
    proof (cases "m = n")
      case True
      have "paidSum ms' n = paidSum ms n"
        by (rule paidSum_cong) (use True other in auto)
      with True assms(1,3) at_m show ?thesis by (simp add: paidSum_Suc)
    next
      case False
      with Suc have "m < n" by simp
      with Suc.IH assms(1) False other show ?thesis by (simp add: paidSum_Suc)
    qed
  qed
  with assms(2) show ?thesis by (simp add: ms'_def)
qed

text \<open>What a successful \<open>_processMilestonePayment\<close> has checked and written.\<close>

lemma pmp_Inr:
  assumes "processMilestonePayment c mid s = Inr s'"
  shows "milestones s' = (milestones s)(mid := (milestones s mid)\<lparr>paid := True\<rparr>)
    \<and> nextMilestoneId s' = nextMilestoneId s
    \<and> totalSubsidyPool s' = totalSubsidyPool s
    \<and> totalDisbursed s' = totalDisbursed s + subsidyAmount (milestones s mid)
    \<and> balance s' + subsidyAmount (milestones s mid) = balance s
    \<and> \<not> paid (milestones s mid)
    \<and> m_status (milestones s mid) = M_Verified"
  using assms
  by (auto simp: processMilestonePayment_def checkProjectCompletion_def safeAdd_def Let_def
      split: if_splits sum.splits)

lemma verify_Inr:
  assumes "verifyMilestone c mid a ok s = Inr s'"
  shows "0 < mid \<and> mid < nextMilestoneId s \<and> m_status (milestones s mid) = M_Pending \<and>
     nextMilestoneId s' = nextMilestoneId s \<and> totalSubsidyPool s' = totalSubsidyPool s \<and>
     (\<exists>M. milestones s' = (milestones s)(mid := M) \<and>
          subsidyAmount M = subsidyAmount (milestones s mid) \<and>
          ((paid M = paid (milestones s mid) \<and> m_status M \<noteq> M_Pending \<and>
            totalDisbursed s' = totalDisbursed s \<and> balance s' = balance s) \<or>
           (\<not> paid (milestones s mid) \<and> paid M \<and> m_status M = M_Verified \<and>
            totalDisbursed s' = totalDisbursed s + subsidyAmount (milestones s mid) \<and>
            balance s' + subsidyAmount (milestones s mid) = balance s)))"
  using assms
  apply (simp add: verifyMilestone_def Let_def split: if_splits sum.splits)
   apply (auto dest!: pmp_Inr)
  done

lemma verify_summary:
  assumes "verifyMilestone c mid a ok s = Inr s'"
  shows "quiet s s' \<or> payment mid s s'"
proof -
  from verify_Inr[OF assms] obtain M where
    r: "0 < mid" "mid < nextMilestoneId s" "m_status (milestones s mid) = M_Pending"
       "nextMilestoneId s' = nextMilestoneId s" "totalSubsidyPool s' = totalSubsidyPool s"
       "milestones s' = (milestones s)(mid := M)"
       "subsidyAmount M = subsidyAmount (milestones s mid)"
    and d: "(paid M = paid (milestones s mid) \<and> m_status M \<noteq> M_Pending \<and>
            totalDisbursed s' = totalDisbursed s \<and> balance s' = balance s) \<or>
           (\<not> paid (milestones s mid) \<and> paid M \<and> m_status M = M_Verified \<and>
            totalDisbursed s' = totalDisbursed s + subsidyAmount (milestones s mid) \<and>
            balance s' + subsidyAmount (milestones s mid) = balance s)"
    by blast
  from d show ?thesis
  proof
    assume "paid M = paid (milestones s mid) \<and> m_status M \<noteq> M_Pending \<and>
            totalDisbursed s' = totalDisbursed s \<and> balance s' = balance s"
    with r have "quiet s s'" by (auto simp: quiet_def)
    then show ?thesis ..
  next
    assume "\<not> paid (milestones s mid) \<and> paid M \<and> m_status M = M_Verified \<and>
            totalDisbursed s' = totalDisbursed s + subsidyAmount (milestones s mid) \<and>
            balance s' + subsidyAmount (milestones s mid) = balance s"
    with r have "payment mid s s'" by (auto simp: payment_def)
    then show ?thesis ..
  qed
qed

lemma resolve_summary:
  assumes "resolveDispute c mid ok s = Inr s'"
  shows "quiet s s' \<or> payment mid s s'"
proof (cases "ok \<and> \<not> paid (milestones s mid)")
  case True
  with assms obtain s1 where
    s1: "s1 = s\<lparr>milestones := (milestones s)
                  (mid := (milestones s mid)\<lparr>m_status := M_Verified\<rparr>)\<rparr>"
    and p: "processMilestonePayment c mid s1 = Inr s'"
    and r: "0 < mid" "mid < nextMilestoneId s"
    by (auto simp: resolveDispute_def Let_def split: if_splits)
  from pmp_Inr[OF p] s1 r True have "payment mid s s'"
    by (auto simp: payment_def)
  then show ?thesis ..
next
  case False
  with assms have "quiet s s'"
    by (auto simp: resolveDispute_def Let_def quiet_def split: if_splits)
  then show ?thesis ..
qed

lemma addMilestone_summary:
  assumes "addMilestone c p d a t v dl s = Inr (i, s')"
  shows "addition s s'"
  using assms
  by (auto simp: addMilestone_def Let_def addition_def safeAdd_def split: if_splits sum.splits)

lemma registerProject_summary:
  assumes "registerProject c a n d t s = Inr (i, s')"
  shows "quiet s s'"
  using assms
  by (auto simp: registerProject_def Let_def quiet_def safeSub_def grantRole_def
      grantRoleInternal_def split: if_splits sum.splits)

lemma step_summary:
  assumes "step c o' s = Inr s'" "is_call o'"
  shows "quiet s s' \<or> (\<exists>m. payment m s s') \<or> addition s s'"
proof (cases o')
  case AddFunds
  with assms have "quiet s s'"
    by (auto simp: step_def addFunds_def safeAdd_def quiet_def split: if_splits)
  then show ?thesis ..
next
  case Receive
  with assms have "quiet s s'"
    by (auto simp: step_def receive_def safeAdd_def quiet_def split: if_splits)
  then show ?thesis ..
next
  case (RegisterProject a n d t)
  with assms show ?thesis
    by (auto simp: step_def dropResult_def split: if_splits sum.splits
        dest: registerProject_summary)
next
  case (AddMilestone p d a t v dl)
  with assms show ?thesis
    by (auto simp: step_def dropResult_def split: if_splits sum.splits
        dest: addMilestone_summary)
next
  case (VerifyMilestone m a ok)
  with assms show ?thesis
    by (auto simp: step_def split: if_splits dest: verify_summary)
next
  case (UpdateProjectStatus p st)
  with assms have "quiet s s'"
    by (auto simp: step_def updateProjectStatus_def quiet_def Let_def split: if_splits)
  then show ?thesis ..
next
  case (DisputeMilestone m)
  with assms have "quiet s s'"
    by (auto simp: step_def disputeMilestone_def quiet_def Let_def split: if_splits)
  then show ?thesis ..
next
  case (ResolveDispute m ok)
  with assms show ?thesis
    by (auto simp: step_def split: if_splits dest: resolve_summary)
next
  case (EmergencyWithdraw a r)
  with assms have "quiet s s'"
    by (auto simp: step_def emergencyWithdraw_def quiet_def split: if_splits)
  then show ?thesis ..
next
  case Pause
  with assms have "quiet s s'"
    by (auto simp: step_def pause_def quiet_def split: if_splits)
  then show ?thesis ..
next
  case Unpause
  with assms have "quiet s s'"
    by (auto simp: step_def unpause_def quiet_def split: if_splits)
  then show ?thesis ..
next
  case (GrantRole r a)
  with assms have "quiet s s'"
    by (auto simp: step_def grantRole_def grantRoleInternal_def quiet_def split: if_splits)
  then show ?thesis ..
next
  case (RevokeRole r a)
  with assms have "quiet s s'"
    by (auto simp: step_def revokeRole_def revokeRoleInternal_def quiet_def split: if_splits)
  then show ?thesis ..
next
  case (RenounceRole r a)
  with assms have "quiet s s'"
    by (auto simp: step_def renounceRole_def revokeRoleInternal_def quiet_def split: if_splits)
  then show ?thesis ..
next
  case (ForceEther v)
  with assms(2) show ?thesis by simp
qed

lemma step_force:
  assumes "step c o' s = Inr s'" "\<not> is_call o'"
  shows "s' = s\<lparr>balance := balance s + forced_amount o'\<rparr>"
  using assms by (cases o') (auto simp: step_def)

lemma call_not_forced: "is_call o' \<Longrightarrow> forced_amount o' = 0"
  by (cases o') simp_all

text \<open>The invariants hold after the constructor and are kept by each kind of transaction.\<close>

lemma ledger_inv_init: "ledger_inv (init d)"
  by (simp add: ledger_inv_def fresh_inv_def funds_inv_def paid_status_inv_def init_def
      paid_sum_def paidSum_def zeroMilestone_def)

lemma quiet_inv:
  assumes "quiet s s'" "ledger_inv s"
  shows "ledger_inv s'"
proof -
  from assms(1) have "paidSum (milestones s') (nextMilestoneId s') = paidSum (milestones s) (nextMilestoneId s)"
    by (auto simp: quiet_def intro: paidSum_cong)
  moreover from assms have "fresh_inv s'"
    by (auto simp: quiet_def ledger_inv_def fresh_inv_def)
  moreover from assms have "paid_status_inv s'"
    unfolding quiet_def ledger_inv_def paid_status_inv_def by metis
  ultimately show ?thesis
    using assms by (simp add: ledger_inv_def funds_inv_def paid_sum_def quiet_def)
qed

lemma payment_inv:
  assumes "payment m s s'" "ledger_inv s"
  shows "ledger_inv s'"
proof -
  from assms(1) obtain M where
    r: "0 < m" "m < nextMilestoneId s" "nextMilestoneId s' = nextMilestoneId s"
       "\<not> paid (milestones s m)" "milestones s' = (milestones s)(m := M)" "paid M"
       "m_status M = M_Verified" "subsidyAmount M = subsidyAmount (milestones s m)"
       "totalDisbursed s' = totalDisbursed s + subsidyAmount (milestones s m)"
       "totalSubsidyPool s' = totalSubsidyPool s"
       "balance s' + subsidyAmount (milestones s m) = balance s"
    by (auto simp: payment_def)
  have "paidSum (milestones s') (nextMilestoneId s')
        = paidSum ((milestones s)(m := (milestones s m)\<lparr>paid := True\<rparr>)) (nextMilestoneId s)"
    using r by (auto intro!: paidSum_cong)
  also have "\<dots> = paidSum (milestones s) (nextMilestoneId s) + subsidyAmount (milestones s m)"
    using r by (intro paidSum_pay) auto
  finally have "paid_sum s' = paid_sum s + subsidyAmount (milestones s m)"
    by (simp add: paid_sum_def)
  moreover from assms(2) r have "fresh_inv s'"
    by (auto simp: ledger_inv_def fresh_inv_def)
  moreover from assms(2) r have "paid_status_inv s'"
    by (auto simp: ledger_inv_def paid_status_inv_def)
  ultimately show ?thesis
    using assms(2) r by (simp add: ledger_inv_def funds_inv_def)
qed

lemma addition_inv:
  assumes "addition s s'" "ledger_inv s"
  shows "ledger_inv s'"
proof -
  from assms(1) obtain M where
    r: "nextMilestoneId s' = nextMilestoneId s + 1"
       "milestones s' = (milestones s)(nextMilestoneId s := M)" "\<not> paid M"
       "m_status M = M_Pending"
       "totalDisbursed s' = totalDisbursed s" "totalSubsidyPool s' = totalSubsidyPool s"
       "balance s' = balance s"
    by (auto simp: addition_def)
  from assms(2) have n: "1 \<le> nextMilestoneId s"
    by (simp add: ledger_inv_def fresh_inv_def)
  have "paidSum (milestones s') (nextMilestoneId s) = paidSum (milestones s) (nextMilestoneId s)"
    using r by (auto intro!: paidSum_cong)
  with r n have "paid_sum s' = paid_sum s"
    by (simp add: paid_sum_def paidSum_Suc)
  moreover from assms(2) r have "fresh_inv s'"
    by (auto simp: ledger_inv_def fresh_inv_def)
  moreover from assms(2) r have "paid_status_inv s'"
    by (auto simp: ledger_inv_def paid_status_inv_def)
  ultimately show ?thesis
    using assms(2) r by (simp add: ledger_inv_def funds_inv_def)
qed

lemma force_inv:
  assumes "s' = s\<lparr>balance := b\<rparr>" "ledger_inv s"
  shows "ledger_inv s'"
  using assms
  by (simp add: ledger_inv_def fresh_inv_def funds_inv_def paid_status_inv_def paid_sum_def)

lemma ledger_inv_step:
  assumes "step c o' s = Inr s'" "ledger_inv s"
  shows "ledger_inv s'"
proof (cases "is_call o'")
  case True
  from step_summary[OF assms(1) True] assms(2) show ?thesis
    by (auto intro: quiet_inv payment_inv addition_inv)
next
  case False
  from step_force[OF assms(1) False] assms(2) show ?thesis
    by (rule force_inv)
qed

lemma ledger_inv_apply_call: "ledger_inv s \<Longrightarrow> ledger_inv (apply_call co s)"
  by (auto simp: apply_call_def split: sum.splits intro: ledger_inv_step)

lemma ledger_inv_exec: "ledger_inv s \<Longrightarrow> ledger_inv (exec cs s)"
  by (induction cs arbitrary: s) (auto intro: ledger_inv_apply_call)

lemma ledger_inv_reachable: "ledger_inv (exec cs (init d))"
  by (rule ledger_inv_exec) (rule ledger_inv_init)

text \<open>What one transaction can do to a milestone's paid flag and to the counters.\<close>

lemma step_paid_mono:
  assumes "step c o' s = Inr s'" "ledger_inv s" "paid (milestones s m)"
  shows "paid (milestones s' m)"
proof (cases "is_call o'")
  case True
  from step_summary[OF assms(1) True] assms(2,3) show ?thesis
    by (auto simp: quiet_def payment_def addition_def ledger_inv_def fresh_inv_def
        zeroMilestone_def split: if_splits)
next
  case False
  from step_force[OF assms(1) False] assms(3) show ?thesis by simp
qed

lemma step_disbursed_mono:
  assumes "step c o' s = Inr s'"
  shows "totalDisbursed s \<le> totalDisbursed s'"
proof (cases "is_call o'")
  case True
  from step_summary[OF assms(1) True] show ?thesis
    by (auto simp: quiet_def payment_def addition_def)
next
  case False
  from step_force[OF assms(1) False] show ?thesis by simp
qed

lemma step_flip:
  assumes "step c o' s = Inr s'" "ledger_inv s" "\<not> paid (milestones s m)" "paid (milestones s' m)"
  shows "payment m s s'"
proof (cases "is_call o'")
  case True
  from step_summary[OF assms(1) True] assms(2-4) show ?thesis
    by (auto simp: quiet_def payment_def addition_def ledger_inv_def fresh_inv_def
        split: if_splits)
next
  case False
  from step_force[OF assms(1) False] assms(3,4) show ?thesis by simp
qed

text \<open>
  The balance against the counters. A call never lets \<open>balance + totalDisbursed\<close> grow by
  more than \<open>totalSubsidyPool\<close> grows; forced ether adds to the balance alone. Along a run the
  gap is at most the ether the run forced in.
\<close>

lemma step_balance:
  assumes "step c o' s = Inr s'"
  shows "balance s' + totalDisbursed s' + totalSubsidyPool s
           \<le> balance s + totalDisbursed s + totalSubsidyPool s' + forced_amount o'"
proof (cases "is_call o'")
  case True
  from step_summary[OF assms True] show ?thesis
    by (auto simp: quiet_def payment_def addition_def)
next
  case False
  from step_force[OF assms False] show ?thesis by simp
qed

lemma apply_call_balance:
  "balance (apply_call co s) + totalDisbursed (apply_call co s) + totalSubsidyPool s
     \<le> balance s + totalDisbursed s + totalSubsidyPool (apply_call co s)
         + forced_amount (snd co)"
proof (cases "step (fst co) (snd co) s")
  case (Inl e)
  then show ?thesis by (simp add: apply_call_def)
next
  case (Inr s')
  from step_balance[OF Inr] Inr show ?thesis by (simp add: apply_call_def)
qed

lemma exec_balance:
  "balance s + totalDisbursed s \<le> totalSubsidyPool s + F \<Longrightarrow>
   balance (exec cs s) + totalDisbursed (exec cs s)
     \<le> totalSubsidyPool (exec cs s) + F + forced_total cs"
proof (induction cs arbitrary: s F)
  case Nil
  then show ?case by (simp add: forced_total_def)
next
  case (Cons co cs)
  have "balance (apply_call co s) + totalDisbursed (apply_call co s)
          \<le> totalSubsidyPool (apply_call co s) + (F + forced_amount (snd co))"
    using apply_call_balance[of co s] Cons.prems by simp
  from Cons.IH[OF this] show ?case
    by (simp add: forced_total_def add.assoc)
qed

lemma reachable_balance:
  "balance (exec cs (init d)) + totalDisbursed (exec cs (init d))
     \<le> totalSubsidyPool (exec cs (init d)) + forced_total cs"
  using exec_balance[of "init d" 0 cs] by (simp add: init_def)

lemma exec_append: "exec (xs @ ys) s = exec ys (exec xs s)"
  by (induction xs arbitrary: s) simp_all

lemma step_next_mono:
  assumes "step c o' s = Inr s'"
  shows "nextMilestoneId s \<le> nextMilestoneId s'"
proof (cases "is_call o'")
  case True
  from step_summary[OF assms True] show ?thesis
    by (auto simp: quiet_def payment_def addition_def)
next
  case False
  from step_force[OF assms False] show ?thesis by simp
qed

lemma exec_next_mono: "nextMilestoneId s \<le> nextMilestoneId (exec cs s)"
proof (induction cs arbitrary: s)
  case Nil
  show ?case by simp
next
  case (Cons co cs)
  have "nextMilestoneId s \<le> nextMilestoneId (apply_call co s)"
    by (auto simp: apply_call_def split: sum.splits dest: step_next_mono)
  also have "\<dots> \<le> nextMilestoneId (exec cs (apply_call co s))"
    by (rule Cons.IH)
  finally show ?case by simp
qed

lemma apply_call_paid_mono:
  "ledger_inv s \<Longrightarrow> paid (milestones s m) \<Longrightarrow> paid (milestones (apply_call co s) m)"
  by (auto simp: apply_call_def split: sum.splits intro: step_paid_mono)

lemma exec_paid_mono:
  "ledger_inv s \<Longrightarrow> paid (milestones s m) \<Longrightarrow> paid (milestones (exec cs s) m)"
  by (induction cs arbitrary: s) (auto intro: apply_call_paid_mono ledger_inv_apply_call)

lemma apply_call_disbursed_mono: "totalDisbursed s \<le> totalDisbursed (apply_call co s)"
  by (auto simp: apply_call_def split: sum.splits intro: step_disbursed_mono)

lemma exec_disbursed_mono: "totalDisbursed s \<le> totalDisbursed (exec cs s)"
proof (induction cs arbitrary: s)
  case Nil
  show ?case by simp
next
  case (Cons co cs)
  have "totalDisbursed s \<le> totalDisbursed (apply_call co s)"
    by (rule apply_call_disbursed_mono)
  also have "\<dots> \<le> totalDisbursed (exec cs (apply_call co s))"
    by (rule Cons.IH)
  finally show ?case by simp
qed

lemma apply_call_flip:
  assumes "ledger_inv s" "\<not> paid (milestones s m)" "paid (milestones (apply_call co s) m)"
  shows "payment m s (apply_call co s)"
proof (cases "step (fst co) (snd co) s")
  case (Inl e)
  with assms show ?thesis by (simp add: apply_call_def)
next
  case (Inr s')
  with assms show ?thesis by (auto simp: apply_call_def intro: step_flip)
qed

lemmas eval_defs = tx_def init_def op_defs zeroProject_def zeroMilestone_def
  getAvailableSubsidy_def

lemma pay_count_bound:
  "ledger_inv s \<Longrightarrow> pay_count m cs s \<le> (if paid (milestones s m) then 0 else 1)"
proof (induction cs arbitrary: s)
  case Nil
  show ?case by simp
next
  case (Cons co cs)
  have inv': "ledger_inv (apply_call co s)"
    using Cons.prems by (rule ledger_inv_apply_call)
  note ih = Cons.IH[OF inv']
  show ?case
  proof (cases "paid (milestones s m)")
    case True
    then have "paid (milestones (apply_call co s) m)"
      using Cons.prems by (simp add: apply_call_paid_mono)
    with ih True show ?thesis by simp
  next
    case False
    with ih show ?thesis by (simp split: if_splits)
  qed
qed

lemma resolve_paid:
  assumes "paid (milestones s m)"
  shows "apply_call (c, ResolveDispute m True) s = s \<or>
         apply_call (c, ResolveDispute m True) s =
           s\<lparr>milestones := (milestones s)(m := (milestones s m)\<lparr>m_status := M_Verified\<rparr>)\<rparr>"
  using assms
  by (simp add: apply_call_def step_def resolveDispute_def Let_def)

text \<open>
  C1 as stated fails. The pool holds 5 and two projects each carry one milestone worth 5. After
  the first milestone is paid, 5 wei are credited to the contract by a \<open>selfdestruct\<close>; the
  guard of the payment reads \<open>address(this).balance\<close>, so the second milestone is paid too:
  \<open>totalDisbursed\<close> is 10 against a pool of 5 and \<open>getAvailableSubsidy\<close> reverts.
\<close>

theorem disbursed_exceeds_pool_counterexample:
  "totalSubsidyPool (exec forced_scenario (init 1)) = 5
   \<and> totalDisbursed (exec forced_scenario (init 1)) = 10
   \<and> paid (milestones (exec forced_scenario (init 1)) 2)
   \<and> \<not> totalDisbursed (exec forced_scenario (init 1))
         \<le> totalSubsidyPool (exec forced_scenario (init 1))
   \<and> getAvailableSubsidy (exec forced_scenario (init 1)) = Inl ArithmeticOverflow"
  by (simp add: forced_scenario_def eval_defs)

text \<open>
  C1, amended. In every state reached from the constructor by any list of transitions, forced
  ether included, \<open>totalDisbursed\<close> is the sum of \<open>subsidyAmount\<close> over the paid milestones;
  \<open>totalDisbursed\<close> never decreases along any continuation; a transition that turns a
  milestone's \<open>paid\<close> from false to true adds exactly that milestone's \<open>subsidyAmount\<close> to
  \<open>totalDisbursed\<close>, leaves \<open>totalSubsidyPool\<close> as it is and takes the amount from the
  balance. \<open>balance + totalDisbursed\<close> exceeds \<open>totalSubsidyPool\<close> by at most the ether forced
  into the contract; so on a run without forced ether \<open>totalDisbursed\<close> never exceeds
  \<open>totalSubsidyPool\<close>, \<open>getAvailableSubsidy\<close> does not revert, and a payment lowers the
  available amount by exactly the milestone's \<open>subsidyAmount\<close>.
\<close>

theorem fund_pool_conservation:
  "let s = exec cs (init d); s' = apply_call co s in
     totalDisbursed s = paid_sum s
   \<and> totalDisbursed s \<le> totalDisbursed (exec cs' s)
   \<and> balance s + totalDisbursed s \<le> totalSubsidyPool s + forced_total cs
   \<and> (forced_total cs = 0 \<longrightarrow>
        totalDisbursed s \<le> totalSubsidyPool s
      \<and> getAvailableSubsidy s = Inr (totalSubsidyPool s - totalDisbursed s))
   \<and> (\<not> paid (milestones s m) \<and> paid (milestones s' m) \<longrightarrow>
        totalSubsidyPool s' = totalSubsidyPool s
      \<and> totalDisbursed s' = totalDisbursed s + subsidyAmount (milestones s m)
      \<and> balance s' + subsidyAmount (milestones s m) = balance s
      \<and> (forced_total cs = 0 \<longrightarrow>
           subsidyAmount (milestones s m) \<le> totalSubsidyPool s - totalDisbursed s
         \<and> getAvailableSubsidy s' =
             Inr (totalSubsidyPool s - totalDisbursed s - subsidyAmount (milestones s m))))"
proof -
  define s where "s = exec cs (init d)"
  define s' where "s' = apply_call co s"
  have inv: "ledger_inv s"
    unfolding s_def by (rule ledger_inv_reachable)
  then have a: "totalDisbursed s = paid_sum s"
    by (simp add: ledger_inv_def funds_inv_def)
  have b: "balance s + totalDisbursed s \<le> totalSubsidyPool s + forced_total cs"
    unfolding s_def by (rule reachable_balance)
  have c: "totalDisbursed s \<le> totalSubsidyPool s
      \<and> getAvailableSubsidy s = Inr (totalSubsidyPool s - totalDisbursed s)"
    if "forced_total cs = 0"
    using b that by (simp add: getAvailableSubsidy_def safeSub_def)
  have e: "totalDisbursed s \<le> totalDisbursed (exec cs' s)"
    by (rule exec_disbursed_mono)
  have f: "totalSubsidyPool s' = totalSubsidyPool s
      \<and> totalDisbursed s' = totalDisbursed s + subsidyAmount (milestones s m)
      \<and> balance s' + subsidyAmount (milestones s m) = balance s
      \<and> (forced_total cs = 0 \<longrightarrow>
           subsidyAmount (milestones s m) \<le> totalSubsidyPool s - totalDisbursed s
         \<and> getAvailableSubsidy s' =
             Inr (totalSubsidyPool s - totalDisbursed s - subsidyAmount (milestones s m)))"
    if "\<not> paid (milestones s m)" "paid (milestones s' m)"
  proof -
    from that inv have "payment m s s'"
      unfolding s'_def by (intro apply_call_flip) auto
    with b show ?thesis
      by (auto simp: payment_def getAvailableSubsidy_def safeSub_def)
  qed
  from a b c e f show ?thesis
    unfolding Let_def s_def[symmetric] s'_def[symmetric] by blast
qed

theorem fund_pool_conservation_witness:
  "forced_total paid_scenario = 0
   \<and> \<not> paid (milestones (exec paid_scenario (init 1)) 1)
   \<and> paid (milestones (apply_call verify_ok (exec paid_scenario (init 1))) 1)
   \<and> totalDisbursed (exec paid_scenario (init 1)) = 0
   \<and> totalDisbursed (apply_call verify_ok (exec paid_scenario (init 1))) = 2
   \<and> getAvailableSubsidy (exec paid_scenario (init 1)) = Inr 10
   \<and> getAvailableSubsidy (apply_call verify_ok (exec paid_scenario (init 1))) = Inr 8"
proof -
  have h: "forced_total paid_scenario = 0"
     "\<not> paid (milestones (exec paid_scenario (init 1)) 1)"
     "paid (milestones (apply_call verify_ok (exec paid_scenario (init 1))) 1)"
     "totalSubsidyPool (exec paid_scenario (init 1)) = 10"
     "totalDisbursed (exec paid_scenario (init 1)) = 0"
     "subsidyAmount (milestones (exec paid_scenario (init 1)) 1) = 2"
    by (simp_all add: forced_total_def paid_scenario_def fixture_def verify_ok_def eval_defs)
  with fund_pool_conservation[where cs=paid_scenario and d=1 and cs'="[]" and m=1 and co=verify_ok]
  show ?thesis by (simp add: Let_def)
qed

text \<open>
  C2 (at-most-once payment). Along any list of transactions from the constructor, a milestone's
  \<open>paid\<close> flag goes from false to true at most once (\<open>pay_count\<close> counts these
  transitions), a flag that is set stays set along any continuation, and approving a dispute on a
  milestone that is already paid moves no funds: the counters, the balance and the projects are
  as before and no payment transition is counted.
\<close>

theorem paid_at_most_once:
  "let s = exec cs (init d); s' = apply_call (c, ResolveDispute m True) s in
     pay_count m cs (init d) \<le> 1
   \<and> (paid (milestones s m) \<longrightarrow> paid (milestones (exec cs' s) m))
   \<and> (paid (milestones s m) \<longrightarrow>
        paid (milestones s' m) \<and> totalDisbursed s' = totalDisbursed s \<and> balance s' = balance s
        \<and> projects s' = projects s \<and> pay_count m [(c, ResolveDispute m True)] s = 0)"
proof -
  define s where "s = exec cs (init d)"
  have inv: "ledger_inv s"
    unfolding s_def by (rule ledger_inv_reachable)
  have a: "pay_count m cs (init d) \<le> 1"
    using pay_count_bound[OF ledger_inv_init, of m cs d] by (simp split: if_splits)
  have b: "paid (milestones s m) \<longrightarrow> paid (milestones (exec cs' s) m)"
    using inv by (simp add: exec_paid_mono)
  have c: "paid (milestones s m) \<longrightarrow>
        paid (milestones (apply_call (c, ResolveDispute m True) s) m)
        \<and> totalDisbursed (apply_call (c, ResolveDispute m True) s) = totalDisbursed s
        \<and> balance (apply_call (c, ResolveDispute m True) s) = balance s
        \<and> projects (apply_call (c, ResolveDispute m True) s) = projects s
        \<and> pay_count m [(c, ResolveDispute m True)] s = 0"
    using resolve_paid[of s m c] by auto
  from a b c show ?thesis
    unfolding Let_def s_def[symmetric] by blast
qed

theorem paid_at_most_once_witness:
  "paid (milestones (exec dispute_scenario (init 1)) 1)
   \<and> m_status (milestones (exec dispute_scenario (init 1)) 1) = M_Disputed
   \<and> m_status (milestones (apply_call (tx 2 4000 0, ResolveDispute 1 True)
        (exec dispute_scenario (init 1))) 1) = M_Verified
   \<and> totalDisbursed (apply_call (tx 2 4000 0, ResolveDispute 1 True)
        (exec dispute_scenario (init 1))) = totalDisbursed (exec dispute_scenario (init 1))
   \<and> totalDisbursed (exec dispute_scenario (init 1)) = 2"
proof -
  have h: "paid (milestones (exec dispute_scenario (init 1)) 1)"
    "m_status (milestones (exec dispute_scenario (init 1)) 1) = M_Disputed"
    "m_status (milestones (apply_call (tx 2 4000 0, ResolveDispute 1 True)
        (exec dispute_scenario (init 1))) 1) = M_Verified"
    "totalDisbursed (exec dispute_scenario (init 1)) = 2"
    by (simp_all add: dispute_scenario_def paid_scenario_def fixture_def verify_ok_def eval_defs)
  with paid_at_most_once[where cs=dispute_scenario and d=1 and c="tx 2 4000 0" and m=1 and cs'="[]"]
  show ?thesis by (simp add: Let_def)
qed

text \<open>
  C3 as stated fails: after verification with payment, the producer's dispute leaves the
  milestone paid with status \<open>Disputed\<close>.
\<close>

theorem paid_not_verified_counterexample:
  "paid (milestones (exec dispute_scenario (init 1)) 1)
   \<and> m_status (milestones (exec dispute_scenario (init 1)) 1) \<noteq> M_Verified"
  by (simp add: dispute_scenario_def paid_scenario_def fixture_def verify_ok_def eval_defs)

text \<open>
  C3, amended. In every reachable state a paid milestone is not \<open>Pending\<close> (its status is
  \<open>Verified\<close>, \<open>Disputed\<close> or \<open>Failed\<close>), and at the transaction that sets \<open>paid\<close>
  the milestone's status is \<open>Verified\<close>. A later successful \<open>disputeMilestone\<close> makes a
  paid milestone \<open>Disputed\<close>, a successful rejecting \<open>resolveDispute\<close> makes it
  \<open>Failed\<close>, and both leave \<open>paid\<close> true.
\<close>

theorem paid_implies_verified_once:
  "let s = exec cs (init d); s' = apply_call co s in
     (paid (milestones s m) \<longrightarrow> m_status (milestones s m) \<noteq> M_Pending)
   \<and> (\<not> paid (milestones s m) \<and> paid (milestones s' m) \<longrightarrow>
        m_status (milestones s' m) = M_Verified)
   \<and> (paid (milestones s m) \<and> step c (DisputeMilestone m) s = Inr s1 \<longrightarrow>
        m_status (milestones s1 m) = M_Disputed \<and> paid (milestones s1 m))
   \<and> (paid (milestones s m) \<and> step c (ResolveDispute m False) s = Inr s2 \<longrightarrow>
        m_status (milestones s2 m) = M_Failed \<and> paid (milestones s2 m))"
proof -
  define s where "s = exec cs (init d)"
  have inv: "ledger_inv s"
    unfolding s_def by (rule ledger_inv_reachable)
  then have a: "paid (milestones s m) \<longrightarrow> m_status (milestones s m) \<noteq> M_Pending"
    by (simp add: ledger_inv_def paid_status_inv_def)
  have b: "m_status (milestones (apply_call co s) m) = M_Verified"
    if "\<not> paid (milestones s m)" "paid (milestones (apply_call co s) m)"
    using apply_call_flip[OF inv that] by (auto simp: payment_def)
  have c: "m_status (milestones s1 m) = M_Disputed \<and> paid (milestones s1 m)"
    if "paid (milestones s m)" "step c (DisputeMilestone m) s = Inr s1"
    using that by (auto simp: step_def disputeMilestone_def Let_def split: if_splits)
  have d: "m_status (milestones s2 m) = M_Failed \<and> paid (milestones s2 m)"
    if "paid (milestones s m)" "step c (ResolveDispute m False) s = Inr s2"
    using that by (auto simp: step_def resolveDispute_def Let_def split: if_splits)
  from a b c d show ?thesis
    unfolding Let_def s_def[symmetric] by blast
qed

theorem paid_implies_verified_once_witness:
  "\<not> paid (milestones (exec paid_scenario (init 1)) 1)
   \<and> paid (milestones (apply_call verify_ok (exec paid_scenario (init 1))) 1)
   \<and> m_status (milestones (apply_call verify_ok (exec paid_scenario (init 1))) 1) = M_Verified
   \<and> paid (milestones (exec (paid_scenario @ [verify_ok]) (init 1)) 1)
   \<and> step (tx 4 3000 0) (DisputeMilestone 1) (exec (paid_scenario @ [verify_ok]) (init 1))
       = Inr (exec dispute_scenario (init 1))
   \<and> m_status (milestones (exec dispute_scenario (init 1)) 1) = M_Disputed
   \<and> paid (milestones (exec dispute_scenario (init 1)) 1)
   \<and> step (tx 2 4000 0) (ResolveDispute 1 False) (exec dispute_scenario (init 1))
       = Inr (apply_call (tx 2 4000 0, ResolveDispute 1 False) (exec dispute_scenario (init 1)))
   \<and> m_status (milestones (apply_call (tx 2 4000 0, ResolveDispute 1 False)
         (exec dispute_scenario (init 1))) 1) = M_Failed
   \<and> paid (milestones (apply_call (tx 2 4000 0, ResolveDispute 1 False)
         (exec dispute_scenario (init 1))) 1)"
proof -
  have h: "\<not> paid (milestones (exec paid_scenario (init 1)) 1)"
     "paid (milestones (apply_call verify_ok (exec paid_scenario (init 1))) 1)"
    by (simp_all add: paid_scenario_def fixture_def verify_ok_def eval_defs)
  have p1: "paid (milestones (exec (paid_scenario @ [verify_ok]) (init 1)) 1)"
    by (simp add: paid_scenario_def fixture_def verify_ok_def eval_defs)
  have d1: "step (tx 4 3000 0) (DisputeMilestone 1) (exec (paid_scenario @ [verify_ok]) (init 1))
       = Inr (exec dispute_scenario (init 1))"
    by (simp add: dispute_scenario_def paid_scenario_def fixture_def verify_ok_def eval_defs)
  have p2: "paid (milestones (exec dispute_scenario (init 1)) 1)"
    by (simp add: dispute_scenario_def paid_scenario_def fixture_def verify_ok_def eval_defs)
  have d2: "step (tx 2 4000 0) (ResolveDispute 1 False) (exec dispute_scenario (init 1))
       = Inr (apply_call (tx 2 4000 0, ResolveDispute 1 False) (exec dispute_scenario (init 1)))"
    by (simp add: dispute_scenario_def paid_scenario_def fixture_def verify_ok_def eval_defs)
  note A = paid_implies_verified_once[where cs=paid_scenario and d=1 and m=1 and co=verify_ok,
      unfolded Let_def]
  note B = paid_implies_verified_once[where cs="paid_scenario @ [verify_ok]" and d=1 and m=1
      and c="tx 4 3000 0" and ?s1.0="exec dispute_scenario (init 1)", unfolded Let_def]
  note C = paid_implies_verified_once[where cs=dispute_scenario and d=1 and m=1
      and c="tx 2 4000 0"
      and ?s2.0="apply_call (tx 2 4000 0, ResolveDispute 1 False) (exec dispute_scenario (init 1))",
      unfolded Let_def]
  from A h have c1: "m_status (milestones (apply_call verify_ok (exec paid_scenario (init 1))) 1)
      = M_Verified"
    by blast
  from B p1 d1 have c2: "m_status (milestones (exec dispute_scenario (init 1)) 1) = M_Disputed"
    by blast
  from C p2 d2 have c3:
    "m_status (milestones (apply_call (tx 2 4000 0, ResolveDispute 1 False)
         (exec dispute_scenario (init 1))) 1) = M_Failed"
    "paid (milestones (apply_call (tx 2 4000 0, ResolveDispute 1 False)
         (exec dispute_scenario (init 1))) 1)"
    by blast+
  from h c1 p1 d1 c2 p2 d2 c3 show ?thesis
    by (intro conjI)
qed

section \<open>Payment without funds, budgets and the pause flag\<close>

text \<open>Which milestones a successful verification, dispute or resolution can touch.\<close>

lemma verify_deadline:
  assumes "verifyMilestone c mid a ok s = Inr s'"
  shows "timestamp c \<le> deadline (milestones s mid)"
  using assms by (simp add: verifyMilestone_def Let_def split: if_splits)

lemma dispute_Inr:
  assumes "disputeMilestone c m s = Inr s'"
  shows "m_status (milestones s m) \<noteq> M_Pending \<and> (\<forall>i. i \<noteq> m \<longrightarrow> milestones s' i = milestones s i)"
  using assms by (auto simp: disputeMilestone_def Let_def split: if_splits)

lemma resolve_Inr:
  assumes "resolveDispute c m ok s = Inr s'"
  shows "m_status (milestones s m) = M_Disputed \<and> (\<forall>i. i \<noteq> m \<longrightarrow> milestones s' i = milestones s i)"
proof (cases "ok \<and> \<not> paid (milestones s m)")
  case True
  with assms obtain s1 where
    s1: "s1 = s\<lparr>milestones := (milestones s)
                  (m := (milestones s m)\<lparr>m_status := M_Verified\<rparr>)\<rparr>"
    and p: "processMilestonePayment c m s1 = Inr s'"
    and r: "m_status (milestones s m) = M_Disputed"
    by (auto simp: resolveDispute_def Let_def split: if_splits)
  from pmp_Inr[OF p] s1 r show ?thesis by auto
next
  case False
  with assms show ?thesis
    by (auto simp: resolveDispute_def Let_def split: if_splits)
qed

lemma step_keeps_expired:
  assumes ok: "step c o' s = Inr s'"
    and m: "0 < mid" "mid < nextMilestoneId s" "m_status (milestones s mid) = M_Pending"
      "deadline (milestones s mid) < timestamp c"
  shows "milestones s' mid = milestones s mid"
proof (cases o')
  case (AddMilestone p d a t v dl)
  with ok obtain i where "addMilestone c p d a t v dl s = Inr (i, s')"
    by (auto simp: step_def dropResult_def split: if_splits sum.splits)
  then have "addition s s'" by (rule addMilestone_summary)
  with m show ?thesis by (auto simp: addition_def)
next
  case (VerifyMilestone m' a b)
  with ok have v: "verifyMilestone c m' a b s = Inr s'"
    by (simp add: step_def split: if_splits)
  from verify_deadline[OF v] m have "m' \<noteq> mid" by auto
  with verify_Inr[OF v] show ?thesis by auto
next
  case (DisputeMilestone m')
  with ok have "disputeMilestone c m' s = Inr s'"
    by (simp add: step_def split: if_splits)
  from dispute_Inr[OF this] m show ?thesis by (cases "m' = mid") auto
next
  case (ResolveDispute m' b)
  with ok have "resolveDispute c m' b s = Inr s'"
    by (simp add: step_def split: if_splits)
  from resolve_Inr[OF this] m show ?thesis by (cases "m' = mid") auto
next
  case (RegisterProject a n d t)
  with ok obtain i where "registerProject c a n d t s = Inr (i, s')"
    by (auto simp: step_def dropResult_def split: if_splits sum.splits)
  then show ?thesis
    by (auto simp: registerProject_def Let_def grantRole_def grantRoleInternal_def
        split: if_splits sum.splits)
qed (use ok in \<open>auto simp: step_def addFunds_def receive_def updateProjectStatus_def
      emergencyWithdraw_def pause_def unpause_def grantRole_def revokeRole_def renounceRole_def
      grantRoleInternal_def revokeRoleInternal_def Let_def split: if_splits sum.splits\<close>)

text \<open>
  C4 as stated fails. The pool holds 5, two projects each carry one milestone worth 5, and the
  first milestone has been paid. Verifying the second, with the target met and before the
  deadline, reverts with "Insufficient contract balance", and the milestone is \<open>Pending\<close>
  afterwards, not \<open>Verified\<close>.
\<close>

theorem insufficient_funds_counterexample:
  "getAvailableSubsidy (exec drained_scenario (init 1)) = Inr 0
   \<and> m_status (milestones (exec drained_scenario (init 1)) 2) = M_Pending
   \<and> subsidyAmount (milestones (exec drained_scenario (init 1)) 2) = 5
   \<and> step (tx 3 2000 0) (VerifyMilestone 2 1500 True) (exec drained_scenario (init 1))
       = Inl InsufficientContractBalance
   \<and> m_status (milestones (apply_call (tx 3 2000 0, VerifyMilestone 2 1500 True)
        (exec drained_scenario (init 1))) 2) \<noteq> M_Verified"
  by (simp add: drained_scenario_def eval_defs)

lemma verify_pays:
  assumes ex: "0 < mid" "mid < nextMilestoneId s"
    and auth: "hasRole s ORACLE_ROLE (sender c) \<or> hasRole s AUDITOR_ROLE (sender c)"
    and pend: "m_status (milestones s mid) = M_Pending" "\<not> paid (milestones s mid)"
    and time: "timestamp c \<le> deadline (milestones s mid)"
    and met: "targetValue (milestones s mid) \<le> actual"
    and act: "p_status (projects s (projectId (milestones s mid))) = P_Active"
    and bal: "subsidyAmount (milestones s mid) \<le> balance s"
    and acc: "recipient_accepts c"
    and nov: "disbursedAmount (projects s (projectId (milestones s mid)))
                + subsidyAmount (milestones s mid) \<le> MAX_UINT256"
      "totalDisbursed s + subsidyAmount (milestones s mid) \<le> MAX_UINT256"
  shows "\<exists>s'. verifyMilestone c mid actual True s = Inr s'
     \<and> m_status (milestones s' mid) = M_Verified \<and> paid (milestones s' mid)
     \<and> totalDisbursed s' = totalDisbursed s + subsidyAmount (milestones s mid)"
  using assms
  by (simp add: verifyMilestone_def processMilestonePayment_def checkProjectCompletion_def
      safeAdd_def hasRole_def Let_def)

text \<open>
  C4, amended. In a reachable state, when a verification meets the target before the deadline
  on an active project and the contract's balance does not cover the milestone's
  \<open>subsidyAmount\<close>, the transaction reverts with "Insufficient contract balance" and is rolled
  back as a whole: the state is exactly as before, the milestone still \<open>Pending\<close> and unpaid.
  The guard reads the balance, not the pool: on a run without forced ether the balance falls
  short whenever the available amount \<open>totalSubsidyPool - totalDisbursed\<close> does. Verification
  and payment are one transaction, not two outcomes. A later verification, after any further
  transitions, succeeds with the milestone \<open>Verified\<close> and paid when at that time the milestone
  is still \<open>Pending\<close>, the caller is an oracle or auditor, the deadline has not passed, the
  target is met, the project is active, the balance covers the amount, the producer accepts the
  transfer and neither disbursement counter overflows.
\<close>

theorem verify_without_funds_rolls_back:
  assumes reach: "s = exec cs (init d)"
    and ex: "0 < mid" "mid < nextMilestoneId s"
    and auth: "hasRole s ORACLE_ROLE (sender c) \<or> hasRole s AUDITOR_ROLE (sender c)"
    and pend: "m_status (milestones s mid) = M_Pending"
    and time: "timestamp c \<le> deadline (milestones s mid)"
    and met: "targetValue (milestones s mid) \<le> actual"
    and act: "p_status (projects s (projectId (milestones s mid))) = P_Active"
    and nv: "msg_value c = 0"
  shows "(balance s < subsidyAmount (milestones s mid) \<longrightarrow>
            step c (VerifyMilestone mid actual True) s = Inl InsufficientContractBalance
          \<and> apply_call (c, VerifyMilestone mid actual True) s = s)
     \<and> (forced_total cs = 0 \<and> getAvailableSubsidy s = Inr a
          \<and> a < subsidyAmount (milestones s mid)
        \<longrightarrow> balance s < subsidyAmount (milestones s mid))
     \<and> (let s2 = exec cs2 (apply_call (c, VerifyMilestone mid actual True) s);
            s3 = apply_call (c2, VerifyMilestone mid actual2 True) s2
        in m_status (milestones s2 mid) = M_Pending
         \<and> (hasRole s2 ORACLE_ROLE (sender c2) \<or> hasRole s2 AUDITOR_ROLE (sender c2))
         \<and> msg_value c2 = 0
         \<and> timestamp c2 \<le> deadline (milestones s2 mid)
         \<and> targetValue (milestones s2 mid) \<le> actual2
         \<and> p_status (projects s2 (projectId (milestones s2 mid))) = P_Active
         \<and> subsidyAmount (milestones s2 mid) \<le> balance s2
         \<and> recipient_accepts c2
         \<and> disbursedAmount (projects s2 (projectId (milestones s2 mid)))
               + subsidyAmount (milestones s2 mid) \<le> MAX_UINT256
         \<and> totalDisbursed s2 + subsidyAmount (milestones s2 mid) \<le> MAX_UINT256
        \<longrightarrow> m_status (milestones s3 mid) = M_Verified \<and> paid (milestones s3 mid)
            \<and> totalDisbursed s3 = totalDisbursed s2 + subsidyAmount (milestones s2 mid))"
proof -
  have inv: "ledger_inv s"
    unfolding reach by (rule ledger_inv_reachable)
  with pend have unpaid: "\<not> paid (milestones s mid)"
    by (auto simp: ledger_inv_def paid_status_inv_def)
  have rej: "step c (VerifyMilestone mid actual True) s = Inl InsufficientContractBalance
          \<and> apply_call (c, VerifyMilestone mid actual True) s = s"
    if low: "balance s < subsidyAmount (milestones s mid)"
  proof -
    from ex auth pend time met act unpaid low nv
    have "step c (VerifyMilestone mid actual True) s = Inl InsufficientContractBalance"
      by (simp add: step_def verifyMilestone_def processMilestonePayment_def hasRole_def Let_def)
    then show ?thesis by (simp add: apply_call_def)
  qed
  have pool: "balance s < subsidyAmount (milestones s mid)"
    if "forced_total cs = 0" "getAvailableSubsidy s = Inr a"
      "a < subsidyAmount (milestones s mid)"
  proof -
    have "balance s + totalDisbursed s \<le> totalSubsidyPool s + forced_total cs"
      unfolding reach by (rule reachable_balance)
    with that show ?thesis
      by (auto simp: getAvailableSubsidy_def safeSub_def split: if_splits)
  qed
  define s2 where "s2 = exec cs2 (apply_call (c, VerifyMilestone mid actual True) s)"
  define s3 where "s3 = apply_call (c2, VerifyMilestone mid actual2 True) s2"
  have inv2: "ledger_inv s2"
    unfolding s2_def using inv by (intro ledger_inv_exec ledger_inv_apply_call)
  have "nextMilestoneId s \<le> nextMilestoneId (apply_call (c, VerifyMilestone mid actual True) s)"
    using exec_next_mono[of s "[(c, VerifyMilestone mid actual True)]"] by simp
  also have "\<dots> \<le> nextMilestoneId s2"
    unfolding s2_def by (rule exec_next_mono)
  finally have ex2: "mid < nextMilestoneId s2"
    using ex(2) by simp
  have retry: "m_status (milestones s3 mid) = M_Verified \<and> paid (milestones s3 mid)
            \<and> totalDisbursed s3 = totalDisbursed s2 + subsidyAmount (milestones s2 mid)"
    if pend2: "m_status (milestones s2 mid) = M_Pending"
      and auth2: "hasRole s2 ORACLE_ROLE (sender c2) \<or> hasRole s2 AUDITOR_ROLE (sender c2)"
      and nv2: "msg_value c2 = 0"
      and time2: "timestamp c2 \<le> deadline (milestones s2 mid)"
      and met2: "targetValue (milestones s2 mid) \<le> actual2"
      and act2: "p_status (projects s2 (projectId (milestones s2 mid))) = P_Active"
      and bal2: "subsidyAmount (milestones s2 mid) \<le> balance s2"
      and acc2: "recipient_accepts c2"
      and nov2: "disbursedAmount (projects s2 (projectId (milestones s2 mid)))
               + subsidyAmount (milestones s2 mid) \<le> MAX_UINT256"
        "totalDisbursed s2 + subsidyAmount (milestones s2 mid) \<le> MAX_UINT256"
  proof -
    from inv2 pend2 have unpaid2: "\<not> paid (milestones s2 mid)"
      by (auto simp: ledger_inv_def paid_status_inv_def)
    from verify_pays[OF ex(1) ex2 auth2 pend2 unpaid2 time2 met2 act2 bal2 acc2 nov2]
    show ?thesis
      using nv2 unfolding s3_def by (auto simp: apply_call_def step_def)
  qed
  from rej pool retry show ?thesis
    unfolding Let_def s2_def[symmetric] s3_def[symmetric] by blast
qed

theorem verify_without_funds_rolls_back_witness:
  "balance (exec drained_scenario (init 1)) < subsidyAmount (milestones (exec drained_scenario (init 1)) 2)
   \<and> step (tx 3 2000 0) (VerifyMilestone 2 1500 True) (exec drained_scenario (init 1))
      = Inl InsufficientContractBalance
   \<and> apply_call (tx 3 2000 0, VerifyMilestone 2 1500 True) (exec drained_scenario (init 1))
      = exec drained_scenario (init 1)
   \<and> m_status (milestones (exec drained_scenario (init 1)) 2) = M_Pending
   \<and> forced_total drained_scenario = 0
   \<and> getAvailableSubsidy (exec drained_scenario (init 1)) = Inr 0
   \<and> paid (milestones (apply_call (tx 3 3000 0, VerifyMilestone 2 1600 True)
        (exec [(tx 1 2500 5, AddFunds)]
           (apply_call (tx 3 2000 0, VerifyMilestone 2 1500 True)
              (exec drained_scenario (init 1))))) 2)"
proof -
  define s where "s = exec drained_scenario (init 1)"
  define s2 where "s2 = exec [(tx 1 2500 5, AddFunds)]
           (apply_call (tx 3 2000 0, VerifyMilestone 2 1500 True) s)"
  have h: "0 < (2::nat)" "2 < nextMilestoneId s"
    "hasRole s ORACLE_ROLE (sender (tx 3 2000 0)) \<or> hasRole s AUDITOR_ROLE (sender (tx 3 2000 0))"
    "m_status (milestones s 2) = M_Pending"
    "timestamp (tx 3 2000 0) \<le> deadline (milestones s 2)"
    "targetValue (milestones s 2) \<le> 1500"
    "p_status (projects s (projectId (milestones s 2))) = P_Active"
    "msg_value (tx 3 2000 0) = 0"
    by (simp_all add: s_def drained_scenario_def eval_defs)
  have low: "balance s < subsidyAmount (milestones s 2)"
    "forced_total drained_scenario = 0" "getAvailableSubsidy s = Inr 0"
    "0 < subsidyAmount (milestones s 2)"
    by (simp_all add: s_def forced_total_def drained_scenario_def eval_defs)
  have g: "m_status (milestones s2 2) = M_Pending"
    "hasRole s2 ORACLE_ROLE (sender (tx 3 3000 0)) \<or> hasRole s2 AUDITOR_ROLE (sender (tx 3 3000 0))"
    "msg_value (tx 3 3000 0) = 0"
    "timestamp (tx 3 3000 0) \<le> deadline (milestones s2 2)"
    "targetValue (milestones s2 2) \<le> 1600"
    "p_status (projects s2 (projectId (milestones s2 2))) = P_Active"
    "subsidyAmount (milestones s2 2) \<le> balance s2"
    "recipient_accepts (tx 3 3000 0)"
    "disbursedAmount (projects s2 (projectId (milestones s2 2)))
        + subsidyAmount (milestones s2 2) \<le> MAX_UINT256"
    "totalDisbursed s2 + subsidyAmount (milestones s2 2) \<le> MAX_UINT256"
    by (simp_all add: s2_def s_def drained_scenario_def eval_defs)
  note T = verify_without_funds_rolls_back[OF s_def h, where a=0 and ?cs2.0="[(tx 1 2500 5, AddFunds)]"
      and ?c2.0="tx 3 3000 0" and ?actual2.0=1600, unfolded Let_def, folded s2_def]
  from T low have c1: "step (tx 3 2000 0) (VerifyMilestone 2 1500 True) s
      = Inl InsufficientContractBalance"
    "apply_call (tx 3 2000 0, VerifyMilestone 2 1500 True) s = s"
    by blast+
  from T g have c2: "paid (milestones (apply_call (tx 3 3000 0, VerifyMilestone 2 1600 True) s2) 2)"
    by blast
  from low(1,2,3) c1 h(4) c2 show ?thesis
    unfolding s2_def s_def by (intro conjI)
qed

text \<open>
  C5 fails on the code. \<open>_processMilestonePayment\<close> makes no check against the project's
  budget, and \<open>addMilestone\<close> compares the new amount with what is already disbursed, not with
  what is already promised. A project with budget 5 admits two milestones of 5 each; both are
  verified and paid from a pool of 10, and the project ends with \<open>disbursedAmount = 10\<close>.
\<close>

theorem budget_overrun_at_payment:
  "totalSubsidyAmount (projects (exec overcommit_scenario (init 1)) 1) = 5
   \<and> disbursedAmount (projects (exec overcommit_scenario (init 1)) 1) = 10
   \<and> paid (milestones (exec overcommit_scenario (init 1)) 1)
   \<and> paid (milestones (exec overcommit_scenario (init 1)) 2)"
  by (simp add: overcommit_scenario_def fixture_def eval_defs)

text \<open>
  C6 fails on the code for project registration. \<open>registerProject\<close> carries no
  \<open>whenNotPaused\<close> modifier: with the pause flag set, the government's registration succeeds
  and project 1 is created, where the test suite expects the revert "Pausable: paused".
\<close>

theorem registration_ignores_pause:
  "paused (exec paused_scenario (init 1))
   \<and> (\<exists>s'. step (fst register_while_paused) (snd register_while_paused)
               (exec paused_scenario (init 1)) = Inr s')
   \<and> nextProjectId (exec paused_scenario (init 1)) = 1
   \<and> nextProjectId (apply_call register_while_paused (exec paused_scenario (init 1))) = 2
   \<and> producer (projects (apply_call register_while_paused (exec paused_scenario (init 1))) 1) = 4"
  by (simp add: paused_scenario_def register_while_paused_def fixture_def eval_defs)

section \<open>Deadlines and direct transfers\<close>

text \<open>
  C9 (deadline). For an existing \<open>Pending\<close> milestone and a transaction whose timestamp is
  after the deadline: \<open>verifyMilestone\<close> reverts, for an authorised verifier with "Milestone
  deadline passed"; the state after the rejected call is the state before, so \<open>actualValue\<close>,
  \<open>verifiedAt\<close>, \<open>verifiedBy\<close> and all counters are untouched; and no transaction at all at such
  a time changes the milestone, so nothing moves it to \<open>Failed\<close>.
\<close>

theorem expired_milestone_stays_pending:
  assumes "0 < mid" "mid < nextMilestoneId s" "m_status (milestones s mid) = M_Pending"
    and "deadline (milestones s mid) < timestamp c"
  shows "(\<exists>e. step c (VerifyMilestone mid a ok) s = Inl e)
     \<and> (msg_value c = 0 \<and> (hasRole s ORACLE_ROLE (sender c) \<or> hasRole s AUDITOR_ROLE (sender c))
          \<longrightarrow> step c (VerifyMilestone mid a ok) s = Inl MilestoneDeadlinePassed)
     \<and> apply_call (c, VerifyMilestone mid a ok) s = s
     \<and> milestones (apply_call (c, o') s) mid = milestones s mid"
proof -
  have rej: "\<exists>e. step c (VerifyMilestone mid a ok) s = Inl e"
  proof (cases "step c (VerifyMilestone mid a ok) s")
    case (Inl e)
    then show ?thesis by blast
  next
    case (Inr s')
    then have "verifyMilestone c mid a ok s = Inr s'"
      by (simp add: step_def split: if_splits)
    from verify_deadline[OF this] assms(4) show ?thesis by simp
  qed
  have why: "msg_value c = 0 \<and> (hasRole s ORACLE_ROLE (sender c) \<or> hasRole s AUDITOR_ROLE (sender c))
          \<longrightarrow> step c (VerifyMilestone mid a ok) s = Inl MilestoneDeadlinePassed"
    using assms by (auto simp: step_def verifyMilestone_def Let_def)
  from rej have same: "apply_call (c, VerifyMilestone mid a ok) s = s"
    by (auto simp: apply_call_def)
  have any: "milestones (apply_call (c, o') s) mid = milestones s mid"
  proof (cases "step c o' s")
    case (Inl e)
    then show ?thesis by (simp add: apply_call_def)
  next
    case (Inr s')
    from step_keeps_expired[OF Inr assms] Inr show ?thesis by (simp add: apply_call_def)
  qed
  from rej why same any show ?thesis by blast
qed

theorem expired_milestone_stays_pending_witness:
  "m_status (milestones (exec paid_scenario (init 1)) 1) = M_Pending
   \<and> deadline (milestones (exec paid_scenario (init 1)) 1) < timestamp (tx 3 90000 0)
   \<and> step (tx 3 90000 0) (VerifyMilestone 1 1500 True) (exec paid_scenario (init 1))
        = Inl MilestoneDeadlinePassed
   \<and> apply_call (tx 3 90000 0, VerifyMilestone 1 1500 True) (exec paid_scenario (init 1))
        = exec paid_scenario (init 1)"
proof -
  define s where "s = exec paid_scenario (init 1)"
  have h: "0 < (1::nat)" "1 < nextMilestoneId s" "m_status (milestones s 1) = M_Pending"
    "deadline (milestones s 1) < timestamp (tx 3 90000 0)"
    by (simp_all add: s_def paid_scenario_def fixture_def eval_defs)
  have r: "msg_value (tx 3 90000 0) = 0" "hasRole s ORACLE_ROLE (sender (tx 3 90000 0))"
    by (simp_all add: s_def paid_scenario_def fixture_def eval_defs)
  from expired_milestone_stays_pending[OF h, of 1500 True] r h(3,4)
  show ?thesis unfolding s_def by simp
qed

text \<open>
  C10 (implicit). \<open>receive\<close> consults no role: for any caller it adds \<open>msg.value\<close> to
  \<open>totalSubsidyPool\<close> and logs \<open>FundsAdded\<close>, the checked addition being its only condition,
  while \<open>addFunds\<close> from a caller without the government role reverts.
\<close>

theorem receive_grows_pool_for_any_caller:
  "step c Receive s =
     (if totalSubsidyPool s + msg_value c \<le> MAX_UINT256
      then Inr (s\<lparr>balance := balance s + msg_value c,
                  totalSubsidyPool := totalSubsidyPool s + msg_value c,
                  events := events s @
                    [FundsAdded (msg_value c) (totalSubsidyPool s + msg_value c)]\<rparr>)
      else Inl ArithmeticOverflow)
   \<and> (\<not> hasRole s GOVERNMENT_ROLE (sender c) \<longrightarrow> step c AddFunds s = Inl OnlyGovernment)"
proof
  show "step c Receive s =
     (if totalSubsidyPool s + msg_value c \<le> MAX_UINT256
      then Inr (s\<lparr>balance := balance s + msg_value c,
                  totalSubsidyPool := totalSubsidyPool s + msg_value c,
                  events := events s @
                    [FundsAdded (msg_value c) (totalSubsidyPool s + msg_value c)]\<rparr>)
      else Inl ArithmeticOverflow)"
    by (simp add: step_def receive_def safeAdd_def)
next
  show "\<not> hasRole s GOVERNMENT_ROLE (sender c) \<longrightarrow> step c AddFunds s = Inl OnlyGovernment"
  proof
    assume "\<not> hasRole s GOVERNMENT_ROLE (sender c)"
    then have "\<not> hasRole (s\<lparr>balance := balance s + msg_value c\<rparr>) GOVERNMENT_ROLE (sender c)"
      by (simp add: hasRole_def)
    then show "step c AddFunds s = Inl OnlyGovernment"
      by (simp add: step_def addFunds_def)
  qed
qed

theorem receive_grows_pool_for_any_caller_witness:
  "\<not> hasRole (init 1) GOVERNMENT_ROLE (sender (tx 9 1000 7))
   \<and> step (tx 9 1000 7) AddFunds (init 1) = Inl OnlyGovernment
   \<and> totalSubsidyPool (apply_call (tx 9 1000 7, Receive) (init 1)) = 7"
proof -
  have h: "\<not> hasRole (init 1) GOVERNMENT_ROLE (sender (tx 9 1000 7))"
    "totalSubsidyPool (init 1) + msg_value (tx 9 1000 7) \<le> MAX_UINT256"
    "totalSubsidyPool (init 1) + msg_value (tx 9 1000 7) = 7"
    by (simp_all add: tx_def init_def hasRole_def MAX_UINT256_def)
  with receive_grows_pool_for_any_caller[of "tx 9 1000 7" "init 1"]
  show ?thesis by (simp add: apply_call_def)
qed

section \<open>DataOracle: submissions and queries\<close>

text \<open>The loops of the queries compute a filter of the history and a bounded sum.\<close>

lemma countLoop_eq:
  "countLoop dps sd f t i n =
     n + length (filter (\<lambda>x. isVerified (dps x) \<and> f \<le> dp_timestamp (dps x)
                              \<and> dp_timestamp (dps x) \<le> t) (drop i sd))"
proof (induction dps sd f t i n rule: countLoop.induct)
  case (1 dps sd f t i n)
  show ?case
  proof (cases "i < length sd")
    case True
    then have d: "drop i sd = sd ! i # drop (Suc i) sd"
      by (simp add: Cons_nth_drop_Suc)
    from True "1.IH"[OF True refl] show ?thesis
      by (subst countLoop.simps) (simp add: d Let_def)
  next
    case False
    then show ?thesis by (subst countLoop.simps) simp
  qed
qed

lemma fillLoop_eq:
  assumes "length ids = index + length (filter (\<lambda>x. isVerified (dps x) \<and> f \<le> dp_timestamp (dps x)
                              \<and> dp_timestamp (dps x) \<le> t) (drop i sd))"
    and "length vals = length ids"
  shows "fillLoop dps sd f t i ids vals index =
     Inr (take index ids @ filter (\<lambda>x. isVerified (dps x) \<and> f \<le> dp_timestamp (dps x)
                              \<and> dp_timestamp (dps x) \<le> t) (drop i sd),
          take index vals @ map (\<lambda>x. dp_value (dps x))
            (filter (\<lambda>x. isVerified (dps x) \<and> f \<le> dp_timestamp (dps x)
                              \<and> dp_timestamp (dps x) \<le> t) (drop i sd)))"
  using assms
proof (induction dps sd f t i ids vals index rule: fillLoop.induct)
  case (1 dps sd f t i ids vals index)
  let ?P = "\<lambda>x. isVerified (dps x) \<and> f \<le> dp_timestamp (dps x) \<and> dp_timestamp (dps x) \<le> t"
  show ?case
  proof (cases "i < length sd")
    case False
    with "1.prems" show ?thesis by (subst fillLoop.simps) simp
  next
    case True
    then have d: "drop i sd = sd ! i # drop (Suc i) sd"
      by (simp add: Cons_nth_drop_Suc)
    show ?thesis
    proof (cases "?P (sd ! i)")
      case False
      with "1.prems" d have len: "length ids = index + length (filter ?P (drop (i + 1) sd))"
        by simp
      from "1.IH"(2)[OF True refl _ len "1.prems"(2)] False d True show ?thesis
        by (subst fillLoop.simps) (auto simp add: Let_def)
    next
      case valid: True
      with "1.prems" d have room: "index < length ids" "index < length vals" by simp_all
      from valid "1.prems" d have len:
        "length (ids[index := sd ! i])
           = (index + 1) + length (filter ?P (drop (i + 1) sd))"
        by simp
      have len2: "length (vals[index := dp_value (dps (sd ! i))]) = length (ids[index := sd ! i])"
        using "1.prems"(2) by simp
      have t1: "take (index + 1) (ids[index := sd ! i]) = take index ids @ [sd ! i]"
        using room by (simp add: take_Suc_conv_app_nth)
      have t2: "take (index + 1) (vals[index := dp_value (dps (sd ! i))])
                  = take index vals @ [dp_value (dps (sd ! i))]"
        using room by (simp add: take_Suc_conv_app_nth)
      from "1.IH"(1)[OF True refl _ _ len len2] valid room True
      have "fillLoop dps sd f t i ids vals index =
          Inr (take (index + 1) (ids[index := sd ! i]) @ filter ?P (drop (i + 1) sd),
               take (index + 1) (vals[index := dp_value (dps (sd ! i))]) @
                 map (\<lambda>x. dp_value (dps x)) (filter ?P (drop (i + 1) sd)))"
        by (subst fillLoop.simps) (auto simp add: Let_def)
      with valid d show ?thesis
        unfolding t1 t2 by simp
    qed
  qed
qed

lemma getVerifiedData_eq:
  "getVerifiedData s src f t =
     Inr (selected s src f t, map (\<lambda>i. dp_value (dataPoints s i)) (selected s src f t))"
  unfolding getVerifiedData_def Let_def
  by (subst fillLoop_eq) (simp_all add: countLoop_eq selected_def)

lemma sumLoop_eq:
  "tot \<le> MAX_UINT256 \<Longrightarrow> sumLoop vs i tot =
     (if tot + sum_list (drop i vs) \<le> MAX_UINT256 then Inr (tot + sum_list (drop i vs))
      else Inl ArithmeticOverflow)"
proof (induction vs i tot rule: sumLoop.induct)
  case (1 vs i tot)
  show ?case
  proof (cases "i < length vs")
    case False
    with "1.prems" show ?thesis by (subst sumLoop.simps) (simp add: safeAdd_def)
  next
    case True
    then have d: "drop i vs = vs ! i # drop (Suc i) vs"
      by (simp add: Cons_nth_drop_Suc)
    show ?thesis
    proof (cases "tot + vs ! i \<le> MAX_UINT256")
      case fits: True
      then have "safeAdd tot (vs ! i) = Inr (tot + vs ! i)"
        by (simp add: safeAdd_def)
      from "1.IH"[OF True this fits] True this show ?thesis
        by (subst sumLoop.simps) (simp add: d add.assoc)
    next
      case False
      then show ?thesis
        using True by (subst sumLoop.simps) (simp add: d safeAdd_def)
    qed
  qed
qed

lemma getAggregateValue_eq:
  "getAggregateValue s src f t =
     (if sum_list (map (\<lambda>i. dp_value (dataPoints s i)) (selected s src f t)) \<le> MAX_UINT256
      then Inr (sum_list (map (\<lambda>i. dp_value (dataPoints s i)) (selected s src f t)),
                length (selected s src f t))
      else Inl ArithmeticOverflow)"
  by (simp add: getAggregateValue_def getVerifiedData_eq sumLoop_eq)

text \<open>
  The history of a source after a run is what it was, followed by the ids of the accepted
  submissions of that source; the timestamp stored under an id is the one hashed into it as
  long as the hash does not collide on the accepted submissions.
\<close>

lemmas oracle_defs = oracle_step_def oracle_apply_def dropId_def addTrustedSource_def
  removeTrustedSource_def submitData_def verifyData_def updateVerificationThreshold_def
  updateSourceReliability_def oracle_pause_def oracle_unpause_def oracle_grantRole_def
  oracle_revokeRole_def oracle_renounceRole_def

lemma submit_step_Inr:
  assumes "oracle_step H c (SubmitData src v md) s = Inr s'"
  shows "dataPoints s' = (dataPoints s)(H src v (timestamp c) (sender c) :=
            \<lparr>dp_value = v, dp_timestamp = timestamp c, dp_source = src,
             dp_sourceType = sourceTypes s src, verifier = sender c,
             isVerified = False, metadata = md\<rparr>)
       \<and> sourceDataHistory s' = (sourceDataHistory s)
            (src := sourceDataHistory s src @ [H src v (timestamp c) (sender c)])"
  using assms by (auto simp: oracle_defs Let_def split: if_splits)

lemma other_step_Inr:
  assumes "oracle_step H c o' s = Inr s'" "\<forall>src v md. o' \<noteq> SubmitData src v md"
  shows "sourceDataHistory s' = sourceDataHistory s
       \<and> (\<forall>i. dp_timestamp (dataPoints s' i) = dp_timestamp (dataPoints s i))"
  using assms by (cases o') (auto simp: oracle_defs split: if_splits)

lemma accepted_other: "\<forall>src v md. o' \<noteq> SubmitData src v md \<Longrightarrow> accepted H (c, o') s = []"
  by (cases o') simp_all

lemma history_apply:
  "sourceDataHistory (oracle_apply H co s) src =
     sourceDataHistory s src @
       map (hash_of H) (filter (\<lambda>u. sub_source u = src) (accepted H co s))"
proof (cases co)
  case (Pair c o')
  show ?thesis
  proof (cases "\<exists>src' v md. o' = SubmitData src' v md")
    case True
    then obtain src' v md where o': "o' = SubmitData src' v md" by blast
    show ?thesis
    proof (cases "oracle_step H c (SubmitData src' v md) s")
      case (Inl e)
      with Pair o' show ?thesis by (simp add: oracle_apply_def)
    next
      case (Inr s')
      from submit_step_Inr[OF Inr] Inr Pair o' show ?thesis
        by (simp add: oracle_apply_def hash_of_def sub_source_def)
    qed
  next
    case False
    then have no: "\<forall>src v md. o' \<noteq> SubmitData src v md" by blast
    show ?thesis
    proof (cases "oracle_step H c o' s")
      case (Inl e)
      with Pair no show ?thesis by (simp add: oracle_apply_def accepted_other)
    next
      case (Inr s')
      from other_step_Inr[OF Inr no] Inr Pair no show ?thesis
        by (simp add: oracle_apply_def accepted_other)
    qed
  qed
qed

lemma history_exec:
  "sourceDataHistory (oracle_exec H cs s) src =
     sourceDataHistory s src @
       map (hash_of H) (filter (\<lambda>u. sub_source u = src) (submitted H cs s))"
  by (induction cs arbitrary: s) (simp_all add: history_apply)

lemma stamped_apply:
  assumes st: "\<forall>u\<in>D. dp_timestamp (dataPoints s (hash_of H u)) = sub_time u"
    and inj: "inj_on (hash_of H) (D \<union> set (accepted H co s))"
  shows "\<forall>u\<in>D \<union> set (accepted H co s).
           dp_timestamp (dataPoints (oracle_apply H co s) (hash_of H u)) = sub_time u"
proof (cases co)
  case (Pair c o')
  show ?thesis
  proof (cases "\<exists>src' v md. o' = SubmitData src' v md")
    case True
    then obtain src' v md where o': "o' = SubmitData src' v md" by blast
    show ?thesis
    proof (cases "oracle_step H c (SubmitData src' v md) s")
      case (Inl e)
      with Pair o' st show ?thesis by (simp add: oracle_apply_def)
    next
      case (Inr s')
      let ?u0 = "(src', v, timestamp c, sender c)"
      have acc: "accepted H co s = [?u0]" using Pair o' Inr by simp
      have s': "oracle_apply H co s = s'" using Pair o' Inr by (simp add: oracle_apply_def)
      have dp: "dataPoints s' = (dataPoints s)(hash_of H ?u0 :=
            \<lparr>dp_value = v, dp_timestamp = timestamp c, dp_source = src',
             dp_sourceType = sourceTypes s src', verifier = sender c,
             isVerified = False, metadata = md\<rparr>)"
        using submit_step_Inr[OF Inr] by (simp add: hash_of_def)
      show ?thesis
      proof
        fix u assume u: "u \<in> D \<union> set (accepted H co s)"
        show "dp_timestamp (dataPoints (oracle_apply H co s) (hash_of H u)) = sub_time u"
        proof (cases "hash_of H u = hash_of H ?u0")
          case True
          with inj u acc have "u = ?u0" by (auto simp: inj_on_def)
          then show ?thesis by (simp add: s' dp sub_time_def)
        next
          case False
          with u acc have "u \<in> D" by auto
          with st False show ?thesis by (simp add: s' dp)
        qed
      qed
    qed
  next
    case False
    then have no: "\<forall>src v md. o' \<noteq> SubmitData src v md" by blast
    show ?thesis
    proof (cases "oracle_step H c o' s")
      case (Inl e)
      with Pair no st show ?thesis by (simp add: oracle_apply_def accepted_other)
    next
      case (Inr s')
      from other_step_Inr[OF Inr no] Inr Pair no st show ?thesis
        by (simp add: oracle_apply_def accepted_other)
    qed
  qed
qed

lemma stamped_exec:
  assumes "\<forall>u\<in>D. dp_timestamp (dataPoints s (hash_of H u)) = sub_time u"
    and "inj_on (hash_of H) (D \<union> set (submitted H cs s))"
  shows "\<forall>u\<in>D \<union> set (submitted H cs s).
           dp_timestamp (dataPoints (oracle_exec H cs s) (hash_of H u)) = sub_time u"
  using assms
proof (induction cs arbitrary: s D)
  case Nil
  then show ?case by simp
next
  case (Cons co cs)
  let ?s1 = "oracle_apply H co s"
  let ?D1 = "D \<union> set (accepted H co s)"
  have sets: "D \<union> set (submitted H (co # cs) s) = ?D1 \<union> set (submitted H cs ?s1)"
    by auto
  have inj1: "inj_on (hash_of H) ?D1"
    using Cons.prems(2) by (rule inj_on_subset) auto
  have st1: "\<forall>u\<in>?D1. dp_timestamp (dataPoints ?s1 (hash_of H u)) = sub_time u"
    using Cons.prems(1) inj1 by (rule stamped_apply)
  have inj2: "inj_on (hash_of H) (?D1 \<union> set (submitted H cs ?s1))"
    using Cons.prems(2) unfolding sets .
  from Cons.IH[OF st1 inj2] show ?case
    unfolding sets by simp
qed

lemma accepted_time:
  "u \<in> set (accepted H co s) \<Longrightarrow> sub_time u = timestamp (fst co)"
proof (cases co)
  case (Pair c o')
  assume "u \<in> set (accepted H co s)"
  with Pair show ?thesis
    by (cases o') (auto simp: sub_time_def split: sum.splits)
qed

lemma submitted_time:
  "u \<in> set (submitted H cs s) \<Longrightarrow> sub_time u \<in> set (map (\<lambda>co. timestamp (fst co)) cs)"
  by (induction cs arbitrary: s) (auto dest: accepted_time)

lemma accepted_short: "length (accepted H co s) \<le> 1"
proof (cases co)
  case (Pair c o')
  then show ?thesis by (cases o') (auto split: sum.splits)
qed

lemma submitted_sorted:
  "sorted (map (\<lambda>co. timestamp (fst co)) cs) \<Longrightarrow> sorted (map sub_time (submitted H cs s))"
proof (induction cs arbitrary: s)
  case Nil
  show ?case by simp
next
  case (Cons co cs)
  from Cons.prems have tail: "sorted (map (\<lambda>co. timestamp (fst co)) cs)"
    and low: "\<forall>t\<in>set (map (\<lambda>co. timestamp (fst co)) cs). timestamp (fst co) \<le> t"
    by simp_all
  have a: "sorted (map sub_time (accepted H co s))"
    using accepted_short[of H co s] by (cases "accepted H co s") auto
  have b: "sorted (map sub_time (submitted H cs (oracle_apply H co s)))"
    using tail by (rule Cons.IH)
  have c: "\<forall>x\<in>set (accepted H co s). \<forall>y\<in>set (submitted H cs (oracle_apply H co s)).
             sub_time x \<le> sub_time y"
  proof (intro ballI)
    fix x y
    assume "x \<in> set (accepted H co s)" "y \<in> set (submitted H cs (oracle_apply H co s))"
    then have "sub_time x = timestamp (fst co)"
      and "sub_time y \<in> set (map (\<lambda>co. timestamp (fst co)) cs)"
      by (auto dest: accepted_time submitted_time)
    with low show "sub_time x \<le> sub_time y" by auto
  qed
  from a b c show ?case by (simp add: sorted_append)
qed

lemma sorted_filter_map:
  "sorted (map f xs) \<Longrightarrow> sorted (map f (filter P xs))"
  by (induction xs) auto

lemmas oracle_eval = oracle_defs oracle_init_def tx_def demo_keccak_def meter_def
  oracle_fixture_def hash_of_def sub_source_def sub_time_def

text \<open>
  C7 as stated fails. Two accepted submissions by the same provider in the same block with the
  same source and value, differing in their metadata, get the same id: the second overwrites
  the first data point and the history lists the id twice.
\<close>

theorem duplicate_id_counterexample:
  "submitted demo_keccak duplicate_scenario (oracle_init 1)
      = [(meter, 1500, 2000, 6), (meter, 1500, 2000, 6)]
   \<and> sourceDataHistory (oracle_exec demo_keccak duplicate_scenario (oracle_init 1)) meter
      = [demo_keccak meter 1500 2000 6, demo_keccak meter 1500 2000 6]
   \<and> \<not> distinct (sourceDataHistory (oracle_exec demo_keccak duplicate_scenario (oracle_init 1)) meter)
   \<and> metadata (dataPoints (oracle_exec demo_keccak duplicate_scenario (oracle_init 1))
         (demo_keccak meter 1500 2000 6)) = ''second reading''"
  by (simp add: duplicate_scenario_def oracle_eval)

text \<open>
  C8 as stated fails for the aggregate. With two verified readings of \<open>2^255\<close> each the query
  returns both, and the aggregate reverts on the checked addition instead of returning a sum.
\<close>

theorem aggregate_overflow_counterexample:
  "getVerifiedData (oracle_exec demo_keccak overflow_scenario (oracle_init 1)) meter 0 5000
      = Inr ([demo_keccak meter (2 ^ 255) 2000 6, demo_keccak meter (2 ^ 255) 2500 6],
             [2 ^ 255, 2 ^ 255])
   \<and> getAggregateValue (oracle_exec demo_keccak overflow_scenario (oracle_init 1)) meter 0 5000
      = Inl ArithmeticOverflow"
  by (simp add: getAggregateValue_eq getVerifiedData_eq selected_def overflow_scenario_def
      oracle_eval MAX_UINT256_def)

text \<open>
  C8, amended. For every state, source and range, \<open>getVerifiedData\<close> returns exactly the ids of
  the source's history that are verified with a timestamp in the closed range, in the order of
  the history, with their values; it is a function of the state and returns no new state.
  \<open>getAggregateValue\<close> returns the sum of these values and their number when the sum is at
  most \<open>2^256 - 1\<close>, and reverts with an arithmetic overflow otherwise.
\<close>

theorem verified_data_query:
  "getVerifiedData s src f t =
      Inr (selected s src f t, map (\<lambda>i. dp_value (dataPoints s i)) (selected s src f t))
   \<and> getAggregateValue s src f t =
      (if sum_list (map (\<lambda>i. dp_value (dataPoints s i)) (selected s src f t)) \<le> MAX_UINT256
       then Inr (sum_list (map (\<lambda>i. dp_value (dataPoints s i)) (selected s src f t)),
                 length (selected s src f t))
       else Inl ArithmeticOverflow)"
proof
  show "getVerifiedData s src f t =
      Inr (selected s src f t, map (\<lambda>i. dp_value (dataPoints s i)) (selected s src f t))"
    by (rule getVerifiedData_eq)
next
  show "getAggregateValue s src f t =
      (if sum_list (map (\<lambda>i. dp_value (dataPoints s i)) (selected s src f t)) \<le> MAX_UINT256
       then Inr (sum_list (map (\<lambda>i. dp_value (dataPoints s i)) (selected s src f t)),
                 length (selected s src f t))
       else Inl ArithmeticOverflow)"
    by (rule getAggregateValue_eq)
qed

theorem verified_data_query_witness:
  "getVerifiedData (oracle_exec demo_keccak readings_scenario (oracle_init 1)) meter 0 5000
      = Inr ([demo_keccak meter 1500 2000 6, demo_keccak meter 700 2500 6], [1500, 700])
   \<and> getVerifiedData (oracle_exec demo_keccak readings_scenario (oracle_init 1)) meter 2001 5000
      = Inr ([demo_keccak meter 700 2500 6], [700])
   \<and> getAggregateValue (oracle_exec demo_keccak readings_scenario (oracle_init 1)) meter 0 5000
      = Inr (2200, 2)"
proof -
  define s where "s = oracle_exec demo_keccak readings_scenario (oracle_init 1)"
  have sel: "selected s meter 0 5000 = [demo_keccak meter 1500 2000 6, demo_keccak meter 700 2500 6]"
    "selected s meter 2001 5000 = [demo_keccak meter 700 2500 6]"
    "dp_value (dataPoints s (demo_keccak meter 1500 2000 6)) = 1500"
    "dp_value (dataPoints s (demo_keccak meter 700 2500 6)) = 700"
    by (simp_all add: s_def selected_def readings_scenario_def oracle_eval)
  have fits: "(2200::nat) \<le> MAX_UINT256" by (simp add: MAX_UINT256_def)
  from verified_data_query[of s meter 0 5000] verified_data_query[of s meter 2001 5000] sel fits
  show ?thesis unfolding s_def by simp
qed

text \<open>
  C7, amended. A successful \<open>submitData\<close> stores, under the computed id, a data point with
  \<open>isVerified = false\<close> (replacing what the id held) and appends the id to the history of the
  source; the id is the hash of (source, value, timestamp, submitter) and of nothing else.
  Histories only grow by appending. From the constructor, the history of a source lists the ids
  of the accepted submissions of that source in submission order. When the hash does not
  collide on the accepted submissions, the history is ordered by time if the block timestamps
  do not decrease, and it is free of duplicates if no two accepted submissions of the source
  agree on all four values.
\<close>

theorem submitData_history:
  "(submitData keccak c src v md s0 = Inr (i, s1) \<longrightarrow>
      i = keccak src v (timestamp c) (sender c)
    \<and> dataPoints s1 = (dataPoints s0)(i :=
          \<lparr>dp_value = v, dp_timestamp = timestamp c, dp_source = src,
           dp_sourceType = sourceTypes s0 src, verifier = sender c,
           isVerified = False, metadata = md\<rparr>)
    \<and> sourceDataHistory s1 = (sourceDataHistory s0)(src := sourceDataHistory s0 src @ [i]))
   \<and> (\<exists>ys. sourceDataHistory (oracle_exec keccak cs s0) src = sourceDataHistory s0 src @ ys)
   \<and> (let s = oracle_exec keccak cs (oracle_init d);
           subs = submitted keccak cs (oracle_init d)
       in sourceDataHistory s src = map (hash_of keccak) (filter (\<lambda>u. sub_source u = src) subs)
        \<and> (inj_on (hash_of keccak) (set subs) \<and> sorted (map (\<lambda>co. timestamp (fst co)) cs) \<longrightarrow>
             sorted (map (\<lambda>j. dp_timestamp (dataPoints s j)) (sourceDataHistory s src)))
        \<and> (inj_on (hash_of keccak) (set subs) \<and> distinct (filter (\<lambda>u. sub_source u = src) subs) \<longrightarrow>
             distinct (sourceDataHistory s src)))"
proof -
  define s where "s = oracle_exec keccak cs (oracle_init d)"
  define subs where "subs = submitted keccak cs (oracle_init d)"
  have a: "submitData keccak c src v md s0 = Inr (i, s1) \<longrightarrow>
      i = keccak src v (timestamp c) (sender c)
    \<and> dataPoints s1 = (dataPoints s0)(i :=
          \<lparr>dp_value = v, dp_timestamp = timestamp c, dp_source = src,
           dp_sourceType = sourceTypes s0 src, verifier = sender c,
           isVerified = False, metadata = md\<rparr>)
    \<and> sourceDataHistory s1 = (sourceDataHistory s0)(src := sourceDataHistory s0 src @ [i])"
    by (auto simp: submitData_def Let_def split: if_splits)
  have b: "\<exists>ys. sourceDataHistory (oracle_exec keccak cs s0) src = sourceDataHistory s0 src @ ys"
    using history_exec[of keccak cs s0 src] by blast
  have h: "sourceDataHistory s src = map (hash_of keccak) (filter (\<lambda>u. sub_source u = src) subs)"
    using history_exec[of keccak cs "oracle_init d" src]
    by (simp add: s_def subs_def oracle_init_def)
  have t: "sorted (map (\<lambda>j. dp_timestamp (dataPoints s j)) (sourceDataHistory s src))"
    if inj: "inj_on (hash_of keccak) (set subs)"
      and mono: "sorted (map (\<lambda>co. timestamp (fst co)) cs)"
  proof -
    have "\<forall>u\<in>{} \<union> set (submitted keccak cs (oracle_init d)).
            dp_timestamp (dataPoints (oracle_exec keccak cs (oracle_init d)) (hash_of keccak u))
              = sub_time u"
      using inj by (intro stamped_exec) (simp_all add: subs_def)
    then have st: "\<forall>u\<in>set subs. dp_timestamp (dataPoints s (hash_of keccak u)) = sub_time u"
      by (simp add: s_def subs_def)
    have "map (\<lambda>j. dp_timestamp (dataPoints s j)) (sourceDataHistory s src)
            = map sub_time (filter (\<lambda>u. sub_source u = src) subs)"
      unfolding h using st by (simp add: comp_def)
    moreover have "sorted (map sub_time (filter (\<lambda>u. sub_source u = src) subs))"
      unfolding subs_def by (intro sorted_filter_map submitted_sorted mono)
    ultimately show ?thesis by simp
  qed
  have u: "distinct (sourceDataHistory s src)"
    if inj: "inj_on (hash_of keccak) (set subs)"
      and dis: "distinct (filter (\<lambda>u. sub_source u = src) subs)"
  proof -
    have "inj_on (hash_of keccak) (set (filter (\<lambda>u. sub_source u = src) subs))"
      using inj by (rule inj_on_subset) auto
    with dis show ?thesis unfolding h by (simp add: distinct_map)
  qed
  from a b h t u show ?thesis
    unfolding Let_def s_def[symmetric] subs_def[symmetric] by blast
qed

theorem submitData_history_witness:
  "submitData demo_keccak (tx 6 2000 0) meter 1500 ''first reading''
       (oracle_exec demo_keccak oracle_fixture (oracle_init 1))
     = Inr (demo_keccak meter 1500 2000 6,
            oracle_exec demo_keccak (oracle_fixture @
              [(tx 6 2000 0, SubmitData meter 1500 ''first reading'')]) (oracle_init 1))
   \<and> inj_on (hash_of demo_keccak) (set (submitted demo_keccak readings_scenario (oracle_init 1)))
   \<and> sorted (map (\<lambda>co. timestamp (fst co)) readings_scenario)
   \<and> distinct (filter (\<lambda>u. sub_source u = meter)
         (submitted demo_keccak readings_scenario (oracle_init 1)))
   \<and> sorted (map (\<lambda>j. dp_timestamp
           (dataPoints (oracle_exec demo_keccak readings_scenario (oracle_init 1)) j))
         (sourceDataHistory (oracle_exec demo_keccak readings_scenario (oracle_init 1)) meter))
   \<and> distinct (sourceDataHistory (oracle_exec demo_keccak readings_scenario (oracle_init 1)) meter)
   \<and> isVerified (dataPoints (oracle_exec demo_keccak (oracle_fixture @
              [(tx 6 2000 0, SubmitData meter 1500 ''first reading'')]) (oracle_init 1))
          (demo_keccak meter 1500 2000 6)) = False"
proof -
  define s0 where "s0 = oracle_exec demo_keccak oracle_fixture (oracle_init 1)"
  define s1 where "s1 = oracle_exec demo_keccak (oracle_fixture @
              [(tx 6 2000 0, SubmitData meter 1500 ''first reading'')]) (oracle_init 1)"
  have sub: "submitData demo_keccak (tx 6 2000 0) meter 1500 ''first reading'' s0
     = Inr (demo_keccak meter 1500 2000 6, s1)"
    by (simp add: s0_def s1_def oracle_eval)
  have subs: "submitted demo_keccak readings_scenario (oracle_init 1)
     = [(meter, 1500, 2000, 6), (meter, 700, 2500, 6)]"
    by (simp add: readings_scenario_def oracle_eval)
  have inj: "inj_on (hash_of demo_keccak) (set (submitted demo_keccak readings_scenario (oracle_init 1)))"
    unfolding subs by (simp add: oracle_eval)
  have mono: "sorted (map (\<lambda>co. timestamp (fst co)) readings_scenario)"
    by (simp add: readings_scenario_def oracle_eval)
  have dis: "distinct (filter (\<lambda>u. sub_source u = meter)
         (submitted demo_keccak readings_scenario (oracle_init 1)))"
    unfolding subs by (simp add: sub_source_def)
  note T = submitData_history[where keccak=demo_keccak and c="tx 6 2000 0" and src=meter
      and v=1500 and md="''first reading''" and ?s0.0=s0 and i="demo_keccak meter 1500 2000 6"
      and ?s1.0=s1 and cs=readings_scenario and d=1, unfolded Let_def]
  from T inj mono have c1: "sorted (map (\<lambda>j. dp_timestamp
           (dataPoints (oracle_exec demo_keccak readings_scenario (oracle_init 1)) j))
         (sourceDataHistory (oracle_exec demo_keccak readings_scenario (oracle_init 1)) meter))"
    by blast
  from T inj dis have c2:
    "distinct (sourceDataHistory (oracle_exec demo_keccak readings_scenario (oracle_init 1)) meter)"
    by blast
  from T sub have "dataPoints s1 = (dataPoints s0)(demo_keccak meter 1500 2000 6 :=
          \<lparr>dp_value = 1500, dp_timestamp = timestamp (tx 6 2000 0), dp_source = meter,
           dp_sourceType = sourceTypes s0 meter, verifier = sender (tx 6 2000 0),
           isVerified = False, metadata = ''first reading''\<rparr>)"
    by blast
  then have c3: "isVerified (dataPoints s1 (demo_keccak meter 1500 2000 6)) = False"
    by simp
  from sub inj mono dis c1 c2 c3 show ?thesis
    unfolding s0_def s1_def by (intro conjI)
qed

end
